theory Spec2Isabelle
  imports Complex_Main "HOL-Library.Sublist"
begin

section \<open>Metric names and device data\<close>

text \<open>
  The constants of \<^verbatim>\<open>handler.go\<close>: the default port of a Key Light device and the
  four Prometheus metric names registered by \<^verbatim>\<open>NewHandler\<close>.
\<close>

definition keylightPort :: string where
  "keylightPort = ''9123''"

definition klInfo :: string where
  "klInfo = ''keylight_info''"

definition klLightOn :: string where
  "klLightOn = ''keylight_light_on''"

definition klLightBrightnessPercent :: string where
  "klLightBrightnessPercent = ''keylight_light_brightness_percent''"

definition klLightTemperatureKelvin :: string where
  "klLightTemperatureKelvin = ''keylight_light_temperature_kelvin''"

text \<open>
  The const gauges \<^verbatim>\<open>NewHandler\<close> registers with \<^verbatim>\<open>mm.ConstGauge\<close>, in the order of
  registration. The keys of the map handed to a scrape function are these names.
\<close>

definition registered :: "string list" where
  "registered = [klInfo, klLightOn, klLightBrightnessPercent, klLightTemperatureKelvin]"

text \<open>
  \<^verbatim>\<open>keylight.Device\<close> and \<^verbatim>\<open>keylight.Light\<close>, with the fields the exporter reads, and
  the exporter's own \<^verbatim>\<open>Data\<close>. A value of \<^verbatim>\<open>Data\<close> is a fetched snapshot: its pointers
  are taken to be non-nil, as a \<^verbatim>\<open>Fetcher\<close> that returns a nil error provides them.
  Go's \<^verbatim>\<open>int\<close> fields are integers; \<^verbatim>\<open>float64(x)\<close> is modelled by \<open>float64\<close> below.
\<close>

record Device =
  DisplayName :: string
  FirmwareVersion :: string
  SerialNumber :: string

record Light =
  On :: bool
  Brightness :: int
  Temperature :: int

record Data =
  Device :: Device
  Lights :: "Light list"

section \<open>Numeric conversions\<close>

text \<open>\<^verbatim>\<open>boolFloat\<close> converts b to a float64 0.0 or 1.0 value.\<close>

definition boolFloat :: "bool \<Rightarrow> real" where
  "boolFloat b = (if b then 1.0 else 0.0)"

text \<open>
  The number of binary digits of a natural number, and Go's conversion \<^verbatim>\<open>float64(x)\<close>
  of an integer: the value itself when it has at most 53 significant bits, and
  otherwise the nearest number with 53 significant bits, ties to the even one.
\<close>

fun bits :: "nat \<Rightarrow> nat" where
  "bits n = (if n = 0 then 0 else Suc (bits (n div 2)))"

declare bits.simps [simp del]

definition float64 :: "int \<Rightarrow> real" where
  "float64 x =
     (let a = nat \<bar>x\<bar>; e = bits a - 53 in
      if e = 0 then of_int x
      else
        let q = a div 2 ^ e; r = a mod 2 ^ e; h = 2 ^ (e - 1);
            q' = (if h < r \<or> (r = h \<and> odd q) then q + 1 else q)
        in of_int (sgn x * int (q' * 2 ^ e)))"

section \<open>Formatting\<close>

text \<open>The decimal digits of a natural number, as the verb \<^verbatim>\<open>%d\<close> prints an index.\<close>

definition digit :: "nat \<Rightarrow> char" where
  "digit n = ''0123456789'' ! n"

fun itoa :: "nat \<Rightarrow> string" where
  "itoa n = (if n < 10 then [digit n] else itoa (n div 10) @ [digit (n mod 10)])"

declare itoa.simps [simp del]

section \<open>The scrape function\<close>

text \<open>
  A scrape function receives a map from metric names to callbacks; calling the
  callback of a name with a value and label values emits one observation of that
  metric. The map is modelled by the list of its keys in the order in which
  \<^verbatim>\<open>range\<close> visits them (Go leaves that order open), and a call \<^verbatim>\<open>c(v, labels...)\<close> of
  the callback stored under \<open>name\<close> by the observation \<open>Observation name v labels\<close>.
  A call of \<^verbatim>\<open>panicf\<close> ends the pass with the panic as its result.
\<close>

datatype observation =
  Observation (obs_name: string) (obs_value: real) (obs_labels: "string list")

datatype panic =
  UnhandledLightMetric string
  | UnhandledMetric string

type_synonym ScrapeFunc = "string list \<Rightarrow> panic + observation list"

text \<open>
  The inner loop \<^verbatim>\<open>for i, l := range d.Lights\<close> of \<^verbatim>\<open>scrapeDevice\<close>, from index \<open>i\<close> on,
  with its inner \<^verbatim>\<open>switch name\<close>.
\<close>

fun scrapeLights :: "string \<Rightarrow> string \<Rightarrow> nat \<Rightarrow> Light list \<Rightarrow> panic + observation list" where
  "scrapeLights name serial i [] = Inr []"
| "scrapeLights name serial i (l # ls) =
     (let light = ''light'' @ itoa i in
      case
        (if name = klLightOn then Inr (Observation name (boolFloat (On l)) [light, serial])
         else if name = klLightBrightnessPercent then
           Inr (Observation name (float64 (Brightness l)) [light, serial])
         else if name = klLightTemperatureKelvin then
           Inr (Observation name (float64 (Temperature l)) [light, serial])
         else Inl (UnhandledLightMetric name))
      of
        Inl p \<Rightarrow> Inl p
      | Inr ob \<Rightarrow>
          (case scrapeLights name serial (Suc i) ls of
             Inl p \<Rightarrow> Inl p
           | Inr obs \<Rightarrow> Inr (ob # obs)))"

text \<open>The outer loop \<^verbatim>\<open>for name, c := range metrics\<close> with its \<^verbatim>\<open>switch name\<close>.\<close>

fun scrapeMetrics :: "Data \<Rightarrow> string \<Rightarrow> string list \<Rightarrow> panic + observation list" where
  "scrapeMetrics d serial [] = Inr []"
| "scrapeMetrics d serial (name # names) =
     (case
        (if name = klInfo then
           Inr [Observation name 1.0
                  [FirmwareVersion (Device d), DisplayName (Device d), serial]]
         else if name = klLightOn \<or> name = klLightBrightnessPercent
                 \<or> name = klLightTemperatureKelvin then
           scrapeLights name serial 0 (Lights d)
         else Inl (UnhandledMetric name))
      of
        Inl p \<Rightarrow> Inl p
      | Inr obs \<Rightarrow>
          (case scrapeMetrics d serial names of
             Inl p \<Rightarrow> Inl p
           | Inr obs' \<Rightarrow> Inr (obs @ obs')))"

text \<open>\<^verbatim>\<open>scrapeDevice\<close> gathers metrics for a single device's data.\<close>

definition scrapeDevice :: "Data \<Rightarrow> ScrapeFunc" where
  "scrapeDevice d = (let serial = SerialNumber (Device d) in (\<lambda>metrics. scrapeMetrics d serial metrics))"

text \<open>The observations one pass of the outer loop emits for a registered name: the closed
  form of the loop body, used to state what a scrape produces.\<close>

definition emitted :: "Data \<Rightarrow> string \<Rightarrow> observation list" where
  "emitted d name =
     (if name = klInfo then
        [Observation klInfo 1
           [FirmwareVersion (Device d), DisplayName (Device d), SerialNumber (Device d)]]
      else if name = klLightOn then
        map (\<lambda>(j, l). Observation klLightOn (boolFloat (On l))
               [''light'' @ itoa j, SerialNumber (Device d)]) (enumerate 0 (Lights d))
      else if name = klLightBrightnessPercent then
        map (\<lambda>(j, l). Observation klLightBrightnessPercent (float64 (Brightness l))
               [''light'' @ itoa j, SerialNumber (Device d)]) (enumerate 0 (Lights d))
      else
        map (\<lambda>(j, l). Observation klLightTemperatureKelvin (float64 (Temperature l))
               [''light'' @ itoa j, SerialNumber (Device d)]) (enumerate 0 (Lights d)))"

text \<open>The snapshot the test fetcher of \<^verbatim>\<open>handler_test.go\<close> returns.\<close>

definition test_data :: Data where
  "test_data =
     \<lparr>Device = \<lparr>DisplayName = ''test'', FirmwareVersion = ''1.0.0'', SerialNumber = ''1111''\<rparr>,
      Lights = [\<lparr>On = True, Brightness = 20, Temperature = 4200\<rparr>,
                \<lparr>On = False, Brightness = 0, Temperature = 0\<rparr>]\<rparr>"


section \<open>Library functions on strings\<close>

text \<open>
  A Go string is a sequence of bytes, here a list of \<^typ>\<open>char\<close> (8 bits each). The
  functions of package \<^verbatim>\<open>strings\<close> that the exporter and the library code below call:
  \<^verbatim>\<open>Index\<close> gives the position of the first occurrence (\<open>None\<close> for Go's \<open>-1\<close>),
  \<^verbatim>\<open>IndexByte\<close> and \<^verbatim>\<open>LastIndexByte\<close> those of a byte.
\<close>

primrec Index :: "string \<Rightarrow> string \<Rightarrow> nat option" where
  "Index [] sep = (if sep = [] then Some 0 else None)"
| "Index (c # s) sep =
     (if prefix sep (c # s) then Some 0 else map_option Suc (Index s sep))"

definition Contains :: "string \<Rightarrow> string \<Rightarrow> bool" where
  "Contains s substr = (Index s substr \<noteq> None)"

primrec IndexByte :: "string \<Rightarrow> char \<Rightarrow> nat option" where
  "IndexByte [] b = None"
| "IndexByte (c # s) b = (if c = b then Some 0 else map_option Suc (IndexByte s b))"

primrec LastIndexByte :: "string \<Rightarrow> char \<Rightarrow> nat option" where
  "LastIndexByte [] b = None"
| "LastIndexByte (c # s) b =
     (case LastIndexByte s b of
        Some i \<Rightarrow> Some (Suc i)
      | None \<Rightarrow> (if c = b then Some 0 else None))"

definition HasPrefix :: "string \<Rightarrow> string \<Rightarrow> bool" where
  "HasPrefix s p = prefix p s"

definition HasSuffix :: "string \<Rightarrow> string \<Rightarrow> bool" where
  "HasSuffix s p = suffix p s"

text \<open>\<^verbatim>\<open>strings.Count\<close> for a separator of one byte.\<close>

definition CountByte :: "string \<Rightarrow> char \<Rightarrow> nat" where
  "CountByte s b = length (filter (\<lambda>c. c = b) s)"

text \<open>\<^verbatim>\<open>strings.ToLower\<close> on a string of ASCII bytes: the letters A to Z are mapped.\<close>

definition lowerByte :: "char \<Rightarrow> char" where
  "lowerByte c =
     (if of_char CHR ''A'' \<le> (of_char c :: nat) \<and> (of_char c :: nat) \<le> of_char CHR ''Z''
      then char_of ((of_char c :: nat) + 32) else c)"

definition ToLower :: "string \<Rightarrow> string" where
  "ToLower s = map lowerByte s"

section \<open>Package net: host and port\<close>

text \<open>
  \<^verbatim>\<open>net.AddrError\<close> with its reason (\<^verbatim>\<open>missing port in address\<close>,
  \<^verbatim>\<open>too many colons in address\<close>, \<^verbatim>\<open>missing ']' in address\<close>,
  \<^verbatim>\<open>unexpected '[' in address\<close>, \<^verbatim>\<open>unexpected ']' in address\<close>) and the address.
\<close>

datatype AddrReason =
  MissingPort | TooManyColons | MissingBracket | UnexpectedOpen | UnexpectedClose

datatype AddrError = AddrError AddrReason string

text \<open>
  \<^verbatim>\<open>net.SplitHostPort\<close> splits \<^verbatim>\<open>host:port\<close>, \<^verbatim>\<open>[host]:port\<close> and the like into host and
  port. \<open>j\<close> and \<open>k\<close> are the positions from which a stray bracket is looked for.
  The first byte is read only when a colon was found, so the string is not empty.
\<close>

definition SplitHostPort :: "string \<Rightarrow> AddrError + (string \<times> string)" where
  "SplitHostPort hostport =
     (case LastIndexByte hostport CHR '':'' of
        None \<Rightarrow> Inl (AddrError MissingPort hostport)
      | Some i \<Rightarrow>
          (case
             (if hd hostport = CHR ''['' then
                (case IndexByte hostport CHR '']'' of
                   None \<Rightarrow> Inl (AddrError MissingBracket hostport)
                 | Some e \<Rightarrow>
                     if e + 1 = length hostport then
                       Inl (AddrError MissingPort hostport)
                     else if e + 1 = i then Inr (take (e - 1) (drop 1 hostport), 1, e + 1)
                     else if hostport ! (e + 1) = CHR '':'' then
                       Inl (AddrError TooManyColons hostport)
                     else Inl (AddrError MissingPort hostport))
              else
                (let host = take i hostport in
                 if IndexByte host CHR '':'' \<noteq> None then
                   Inl (AddrError TooManyColons hostport)
                 else Inr (host, 0, 0)))
           of
             Inl err \<Rightarrow> Inl err
           | Inr (host, j, k) \<Rightarrow>
               if IndexByte (drop j hostport) CHR ''['' \<noteq> None then
                 Inl (AddrError UnexpectedOpen hostport)
               else if IndexByte (drop k hostport) CHR '']'' \<noteq> None then
                 Inl (AddrError UnexpectedClose hostport)
               else Inr (host, drop (i + 1) hostport)))"

text \<open>
  \<^verbatim>\<open>net.JoinHostPort\<close>: a host with a colon is taken for a literal IPv6 address and put
  in brackets.
\<close>

definition JoinHostPort :: "string \<Rightarrow> string \<Rightarrow> string" where
  "JoinHostPort host port =
     (if IndexByte host CHR '':'' \<noteq> None then ''['' @ host @ '']:'' @ port
      else host @ '':'' @ port)"


section \<open>Package net/url\<close>

text \<open>
  The part of Go's \<^verbatim>\<open>net/url\<close> that \<^verbatim>\<open>buildAddr\<close> and \<^verbatim>\<open>buildHostPort\<close> run:
  \<^verbatim>\<open>url.Parse\<close> and \<^verbatim>\<open>(*URL).String\<close> with the functions they call, after the library
  of the Go release named in \<^verbatim>\<open>go.mod\<close> (1.14).
\<close>

subsection \<open>Escaping\<close>

datatype encoding =
  encodePath | encodePathSegment | encodeHost | encodeZone | encodeUserPassword
  | encodeQueryComponent | encodeFragment

definition byte_in :: "char \<Rightarrow> char \<Rightarrow> char \<Rightarrow> bool" where
  "byte_in lo c hi = ((of_char lo :: nat) \<le> of_char c \<and> (of_char c :: nat) \<le> of_char hi)"

definition ishex :: "char \<Rightarrow> bool" where
  "ishex c =
     (byte_in CHR ''0'' c CHR ''9'' \<or> byte_in CHR ''a'' c CHR ''f'' \<or> byte_in CHR ''A'' c CHR ''F'')"

definition unhex :: "char \<Rightarrow> nat" where
  "unhex c =
     (if byte_in CHR ''0'' c CHR ''9'' then of_char c - of_char CHR ''0''
      else if byte_in CHR ''a'' c CHR ''f'' then of_char c - of_char CHR ''a'' + 10
      else if byte_in CHR ''A'' c CHR ''F'' then of_char c - of_char CHR ''A'' + 10
      else 0)"

definition upperhex :: string where
  "upperhex = ''0123456789ABCDEF''"

text \<open>
  \<^verbatim>\<open>shouldEscape\<close> tells whether a byte is escaped when it appears in the given part
  of a URL.
\<close>

definition shouldEscape :: "char \<Rightarrow> encoding \<Rightarrow> bool" where
  "shouldEscape c mode =
     (if byte_in CHR ''a'' c CHR ''z'' \<or> byte_in CHR ''A'' c CHR ''Z'' \<or> byte_in CHR ''0'' c CHR ''9''
      then False
      else if (mode = encodeHost \<or> mode = encodeZone) \<and> c \<in> set ''!$&'()*+,;=:[]<>\"'' then False
      else if c \<in> set ''-_.~'' then False
      else if c \<in> set ''$&+,/:;=?@'' \<and> mode = encodePath then c = CHR ''?''
      else if c \<in> set ''$&+,/:;=?@'' \<and> mode = encodePathSegment then
        c = CHR ''/'' \<or> c = CHR '';'' \<or> c = CHR '','' \<or> c = CHR ''?''
      else if c \<in> set ''$&+,/:;=?@'' \<and> mode = encodeUserPassword then
        c = CHR ''@'' \<or> c = CHR ''/'' \<or> c = CHR ''?'' \<or> c = CHR '':''
      else if c \<in> set ''$&+,/:;=?@'' \<and> mode = encodeQueryComponent then True
      else if c \<in> set ''$&+,/:;=?@'' \<and> mode = encodeFragment then False
      else if mode = encodeFragment \<and> c \<in> set ''!()*'' then False
      else True)"

text \<open>
  \<^verbatim>\<open>escape\<close> writes every byte that should be escaped as \<^verbatim>\<open>%XX\<close> (a space in a query
  component as \<^verbatim>\<open>+\<close>) and copies the others.
\<close>

definition escapeByte :: "encoding \<Rightarrow> char \<Rightarrow> string" where
  "escapeByte mode c =
     (if c = CHR '' '' \<and> mode = encodeQueryComponent then ''+''
      else if shouldEscape c mode then
        [CHR ''%'', upperhex ! (of_char c div 16), upperhex ! (of_char c mod 16)]
      else [c])"

definition escape :: "string \<Rightarrow> encoding \<Rightarrow> string" where
  "escape s mode = concat (map (escapeByte mode) s)"

datatype urlerr =
  InvalidControlCharacter
  | EmptyURL
  | InvalidURIForRequest
  | MissingProtocolScheme
  | FirstPathSegmentColon
  | EscapeError string
  | InvalidHostError string
  | MissingBracketInHost
  | InvalidPort string
  | InvalidUserinfo

text \<open>
  \<^verbatim>\<open>unescape\<close> checks that every \<^verbatim>\<open>%\<close> is followed by two hexadecimal digits that
  the part of the URL admits, and that a host has no byte that would have to be
  escaped; then it decodes. Go checks the whole string before it decodes; the
  function below does both in one pass from left to right, which finds the same first
  error and gives the same decoded string.
\<close>

fun unescape :: "string \<Rightarrow> encoding \<Rightarrow> urlerr + string" where
  "unescape [] mode = Inr []"
| "unescape (c # s) mode =
     (if c = CHR ''%'' then
        (case s of
           a # b # s' \<Rightarrow>
             if \<not> ishex a \<or> \<not> ishex b then Inl (EscapeError (take 3 (c # s)))
             else if mode = encodeHost \<and> unhex a < 8 \<and> [c, a, b] \<noteq> ''%25'' then
               Inl (EscapeError [c, a, b])
             else if mode = encodeZone \<and> [c, a, b] \<noteq> ''%25''
                     \<and> char_of (16 * unhex a + unhex b) \<noteq> CHR '' ''
                     \<and> shouldEscape (char_of (16 * unhex a + unhex b)) encodeHost then
               Inl (EscapeError [c, a, b])
             else
               (case unescape s' mode of
                  Inl err \<Rightarrow> Inl err
                | Inr t \<Rightarrow> Inr (char_of (16 * unhex a + unhex b) # t))
         | _ \<Rightarrow> Inl (EscapeError (take 3 (c # s))))
      else if c = CHR ''+'' then
        (case unescape s mode of
           Inl err \<Rightarrow> Inl err
         | Inr t \<Rightarrow> Inr ((if mode = encodeQueryComponent then CHR '' '' else CHR ''+'') # t))
      else if (mode = encodeHost \<or> mode = encodeZone) \<and> (of_char c :: nat) < 128
              \<and> shouldEscape c encodeHost then
        Inl (InvalidHostError [c])
      else
        (case unescape s mode of
           Inl err \<Rightarrow> Inl err
         | Inr t \<Rightarrow> Inr (c # t)))"

subsection \<open>URLs\<close>

record Userinfo =
  username :: string
  password :: string
  passwordSet :: bool

record URL =
  Scheme :: string
  Opaque :: string
  User :: "Userinfo option"
  Host :: string
  Path :: string
  RawPath :: string
  ForceQuery :: bool
  RawQuery :: string
  Fragment :: string

text \<open>The zero value of \<^verbatim>\<open>URL\<close>.\<close>

definition zeroURL :: URL where
  "zeroURL =
     \<lparr>Scheme = [], Opaque = [], User = None, Host = [], Path = [], RawPath = [],
      ForceQuery = False, RawQuery = [], Fragment = []\<rparr>"

text \<open>
  \<^verbatim>\<open>getscheme\<close> reads a scheme up to the first colon; \<open>i\<close> is the position of the
  byte at the head of the rest still to be read.
\<close>

fun schemeScan :: "string \<Rightarrow> nat \<Rightarrow> string \<Rightarrow> urlerr + (string \<times> string)" where
  "schemeScan rawurl i [] = Inr ([], rawurl)"
| "schemeScan rawurl i (c # cs) =
     (if byte_in CHR ''a'' c CHR ''z'' \<or> byte_in CHR ''A'' c CHR ''Z'' then
        schemeScan rawurl (Suc i) cs
      else if byte_in CHR ''0'' c CHR ''9'' \<or> c = CHR ''+'' \<or> c = CHR ''-'' \<or> c = CHR ''.'' then
        (if i = 0 then Inr ([], rawurl) else schemeScan rawurl (Suc i) cs)
      else if c = CHR '':'' then
        (if i = 0 then Inl MissingProtocolScheme
         else Inr (take i rawurl, drop (Suc i) rawurl))
      else Inr ([], rawurl))"

definition getscheme :: "string \<Rightarrow> urlerr + (string \<times> string)" where
  "getscheme rawurl = schemeScan rawurl 0 rawurl"

text \<open>
  \<^verbatim>\<open>split\<close> cuts a string at the first occurrence of a byte; with \<open>cutc\<close> the byte
  itself is dropped from the second part.
\<close>

definition split :: "string \<Rightarrow> char \<Rightarrow> bool \<Rightarrow> string \<times> string" where
  "split s sep cutc =
     (case IndexByte s sep of
        None \<Rightarrow> (s, [])
      | Some i \<Rightarrow> if cutc then (take i s, drop (i + 1) s) else (take i s, drop i s))"

definition stringContainsCTLByte :: "string \<Rightarrow> bool" where
  "stringContainsCTLByte s =
     list_ex (\<lambda>b. (of_char b :: nat) < of_char CHR '' '' \<or> (of_char b :: nat) = 127) s"

definition validOptionalPort :: "string \<Rightarrow> bool" where
  "validOptionalPort port =
     (case port of
        [] \<Rightarrow> True
      | c # ds \<Rightarrow> c = CHR '':'' \<and> list_all (\<lambda>b. byte_in CHR ''0'' b CHR ''9'') ds)"

text \<open>
  \<^verbatim>\<open>validUserinfo\<close> ranges over the runes of the string; every rune of a byte outside
  ASCII is outside the admitted set, as that byte is here.
\<close>

definition validUserinfo :: "string \<Rightarrow> bool" where
  "validUserinfo s =
     list_all (\<lambda>r. byte_in CHR ''A'' r CHR ''Z'' \<or> byte_in CHR ''a'' r CHR ''z''
                \<or> byte_in CHR ''0'' r CHR ''9'' \<or> r \<in> set ''-._:~!$&'()*+,;=%@'') s"

text \<open>
  \<^verbatim>\<open>parseHost\<close> checks the port after the host and unescapes the host; in a bracketed
  host the part from the first \<^verbatim>\<open>%25\<close> to the closing bracket is a zone.
\<close>

definition parseHost :: "string \<Rightarrow> urlerr + string" where
  "parseHost host =
     (if HasPrefix host ''['' then
        (case LastIndexByte host CHR '']'' of
           None \<Rightarrow> Inl MissingBracketInHost
         | Some i \<Rightarrow>
             (let colonPort = drop (i + 1) host in
              if \<not> validOptionalPort colonPort then Inl (InvalidPort colonPort)
              else
                (case Index (take i host) ''%25'' of
                   Some zone \<Rightarrow>
                     (case unescape (take zone host) encodeHost of
                        Inl err \<Rightarrow> Inl err
                      | Inr host1 \<Rightarrow>
                          (case unescape (drop zone (take i host)) encodeZone of
                             Inl err \<Rightarrow> Inl err
                           | Inr host2 \<Rightarrow>
                               (case unescape (drop i host) encodeHost of
                                  Inl err \<Rightarrow> Inl err
                                | Inr host3 \<Rightarrow> Inr (host1 @ host2 @ host3))))
                 | None \<Rightarrow> unescape host encodeHost)))
      else
        (case LastIndexByte host CHR '':'' of
           Some i \<Rightarrow>
             (let colonPort = drop i host in
              if \<not> validOptionalPort colonPort then Inl (InvalidPort colonPort)
              else unescape host encodeHost)
         | None \<Rightarrow> unescape host encodeHost))"

text \<open>\<^verbatim>\<open>parseAuthority\<close> splits \<^verbatim>\<open>[userinfo@]host\<close> at the last \<^verbatim>\<open>@\<close>.\<close>

definition parseAuthority :: "string \<Rightarrow> urlerr + (Userinfo option \<times> string)" where
  "parseAuthority authority =
     (let i = LastIndexByte authority CHR ''@'' in
      case (case i of None \<Rightarrow> parseHost authority
                    | Some n \<Rightarrow> parseHost (drop (n + 1) authority)) of
        Inl err \<Rightarrow> Inl err
      | Inr host \<Rightarrow>
          (case i of
             None \<Rightarrow> Inr (None, host)
           | Some n \<Rightarrow>
               (let userinfo = take n authority in
                if \<not> validUserinfo userinfo then Inl InvalidUserinfo
                else if \<not> Contains userinfo '':'' then
                  (case unescape userinfo encodeUserPassword of
                     Inl err \<Rightarrow> Inl err
                   | Inr name \<Rightarrow>
                       Inr (Some \<lparr>username = name, password = [], passwordSet = False\<rparr>, host))
                else
                  (let (name, pass) = split userinfo CHR '':'' True in
                   case unescape name encodeUserPassword of
                     Inl err \<Rightarrow> Inl err
                   | Inr name' \<Rightarrow>
                       (case unescape pass encodeUserPassword of
                          Inl err \<Rightarrow> Inl err
                        | Inr pass' \<Rightarrow>
                            Inr (Some \<lparr>username = name', password = pass',
                                       passwordSet = True\<rparr>, host))))))"

text \<open>
  \<^verbatim>\<open>setPath\<close> sets \<^verbatim>\<open>Path\<close> to the unescaped path, and \<^verbatim>\<open>RawPath\<close> to the given one
  when it is not the default encoding of the path.
\<close>

definition setPath :: "URL \<Rightarrow> string \<Rightarrow> urlerr + URL" where
  "setPath u p =
     (case unescape p encodePath of
        Inl err \<Rightarrow> Inl err
      | Inr path \<Rightarrow>
          Inr (u\<lparr>Path := path, RawPath := (if p = escape path encodePath then [] else p)\<rparr>))"

text \<open>
  \<^verbatim>\<open>parse\<close> parses a URL with no fragment: scheme, query, then either an opaque rest
  or authority and path.
\<close>

definition parse :: "string \<Rightarrow> bool \<Rightarrow> urlerr + URL" where
  "parse rawurl viaRequest =
     (if stringContainsCTLByte rawurl then Inl InvalidControlCharacter
      else if rawurl = [] \<and> viaRequest then Inl EmptyURL
      else if rawurl = ''*'' then Inr (zeroURL\<lparr>Path := ''*''\<rparr>)
      else
        (case getscheme rawurl of
           Inl err \<Rightarrow> Inl err
         | Inr (scheme, rest0) \<Rightarrow>
             (let url = zeroURL\<lparr>Scheme := ToLower scheme\<rparr>;
                  (rest, url) =
                    (if HasSuffix rest0 ''?'' \<and> CountByte rest0 CHR ''?'' = 1 then
                       (butlast rest0, url\<lparr>ForceQuery := True\<rparr>)
                     else
                       (let (r, q) = split rest0 CHR ''?'' True in (r, url\<lparr>RawQuery := q\<rparr>)))
              in
                if \<not> HasPrefix rest ''/'' \<and> Scheme url \<noteq> [] then Inr (url\<lparr>Opaque := rest\<rparr>)
                else if \<not> HasPrefix rest ''/'' \<and> viaRequest then Inl InvalidURIForRequest
                else if \<not> HasPrefix rest ''/''
                        \<and> (case IndexByte rest CHR '':'' of
                              None \<Rightarrow> False
                            | Some colon \<Rightarrow>
                                (case IndexByte rest CHR ''/'' of
                                   None \<Rightarrow> True
                                 | Some slash \<Rightarrow> colon < slash)) then
                  Inl FirstPathSegmentColon
                else if (Scheme url \<noteq> [] \<or> (\<not> viaRequest \<and> \<not> HasPrefix rest ''///''))
                        \<and> HasPrefix rest ''//'' then
                  (let (authority, rest') = split (drop 2 rest) CHR ''/'' False in
                   case parseAuthority authority of
                     Inl err \<Rightarrow> Inl err
                   | Inr (user, host) \<Rightarrow> setPath (url\<lparr>User := user, Host := host\<rparr>) rest')
                else setPath url rest)))"

text \<open>\<^verbatim>\<open>url.Error\<close>: the operation, the URL and the error it wraps.\<close>

datatype url_Error = url_Error string string urlerr

text \<open>\<^verbatim>\<open>url.Parse\<close> cuts the fragment off, parses the rest and unescapes the fragment.\<close>

definition Parse :: "string \<Rightarrow> url_Error + URL" where
  "Parse rawurl =
     (let (u, frag) = split rawurl CHR ''#'' True in
      case parse u False of
        Inl err \<Rightarrow> Inl (url_Error ''parse'' u err)
      | Inr url \<Rightarrow>
          if frag = [] then Inr url
          else
            (case unescape frag encodeFragment of
               Inl err \<Rightarrow> Inl (url_Error ''parse'' rawurl err)
             | Inr f \<Rightarrow> Inr (url\<lparr>Fragment := f\<rparr>)))"

subsection \<open>Printing a URL\<close>

definition Userinfo_String :: "Userinfo \<Rightarrow> string" where
  "Userinfo_String u =
     escape (username u) encodeUserPassword
     @ (if passwordSet u then '':'' @ escape (password u) encodeUserPassword else [])"

definition validEncodedPath :: "string \<Rightarrow> bool" where
  "validEncodedPath s =
     list_all (\<lambda>c. c \<in> set ''!$&'()*+,;=:@[]%'' \<or> \<not> shouldEscape c encodePath) s"

definition EscapedPath :: "URL \<Rightarrow> string" where
  "EscapedPath u =
     (if RawPath u \<noteq> [] \<and> validEncodedPath (RawPath u)
         \<and> unescape (RawPath u) encodePath = Inr (Path u) then RawPath u
      else if Path u = ''*'' then ''*''
      else escape (Path u) encodePath)"

text \<open>
  \<^verbatim>\<open>(*URL).String\<close> writes the parts of the URL to a buffer; the definition names the
  buffer after each block of the function.
\<close>

definition URL_String :: "URL \<Rightarrow> string" where
  "URL_String u =
     (let buf1 = (if Scheme u \<noteq> [] then Scheme u @ '':'' else []);
          buf2 =
            (if Opaque u \<noteq> [] then buf1 @ Opaque u
             else
               (let b1 =
                      (if Scheme u \<noteq> [] \<or> Host u \<noteq> [] \<or> User u \<noteq> None then
                         buf1
                         @ (if Host u \<noteq> [] \<or> Path u \<noteq> [] \<or> User u \<noteq> None then ''//'' else [])
                         @ (case User u of None \<Rightarrow> [] | Some ui \<Rightarrow> Userinfo_String ui @ ''@'')
                         @ (if Host u \<noteq> [] then escape (Host u) encodeHost else [])
                       else buf1);
                    path = EscapedPath u;
                    b2 = (if path \<noteq> [] \<and> hd path \<noteq> CHR ''/'' \<and> Host u \<noteq> [] then b1 @ ''/'' else b1);
                    b3 =
                      (if b2 = []
                          \<and> (case IndexByte path CHR '':'' of
                                None \<Rightarrow> False
                              | Some i \<Rightarrow> IndexByte (take i path) CHR ''/'' = None)
                       then b2 @ ''./'' else b2)
                in b3 @ path));
          buf3 = (if ForceQuery u \<or> RawQuery u \<noteq> [] then buf2 @ ''?'' @ RawQuery u else buf2)
      in if Fragment u \<noteq> [] then buf3 @ ''#'' @ escape (Fragment u) encodeFragment else buf3)"


section \<open>Building the device address\<close>

text \<open>
  The errors of \<^verbatim>\<open>buildAddr\<close>: the one of \<^verbatim>\<open>url.Parse\<close>, and its own
  \<^verbatim>\<open>invalid device URL: %q\<close> made from the parsed URL.
\<close>

datatype error =
  ParseError url_Error
  | InvalidDeviceURL URL

text \<open>
  The URL that \<^verbatim>\<open>buildHostPort\<close> prints always has the scheme separator, so the call
  of \<^verbatim>\<open>buildAddr\<close> on it does not come back to \<^verbatim>\<open>buildHostPort\<close>: the recursion ends.
\<close>

lemma JoinHostPort_not_Nil: "JoinHostPort host port \<noteq> []"
  by (simp add: JoinHostPort_def)

lemma URL_String_http:
  "hp \<noteq> [] \<Longrightarrow>
   URL_String (zeroURL\<lparr>Scheme := ''http'', Host := hp\<rparr>) = ''http://'' @ escape hp encodeHost"
  by (simp add: URL_String_def zeroURL_def EscapedPath_def escape_def)

lemma Contains_http: "Contains (''http://'' @ t) ''://''"
  by (simp add: Contains_def)

text \<open>
  \<^verbatim>\<open>buildAddr\<close> builds a well-formed HTTP endpoint address from s, and
  \<^verbatim>\<open>buildHostPort\<close> one from a string with no URL scheme. Each calls the other.
\<close>

function buildAddr :: "string \<Rightarrow> error + string"
  and buildHostPort :: "string \<Rightarrow> error + string" where
  "buildAddr s =
     (if \<not> Contains s ''://'' then buildHostPort s
      else
        (case Parse s of
           Inl err \<Rightarrow> Inl (ParseError err)
         | Inr u0 \<Rightarrow>
             (let u = (if Path u0 = ''/'' then u0\<lparr>Path := []\<rparr> else u0) in
              if (Scheme u \<noteq> ''http'' \<and> Scheme u \<noteq> ''https'') \<or> Host u = [] \<or> Path u \<noteq> []
              then Inl (InvalidDeviceURL u)
              else Inr (URL_String u))))"
| "buildHostPort s =
     (let (host, port) =
            (case SplitHostPort s of
               Inl err \<Rightarrow> (s, keylightPort)
             | Inr hp \<Rightarrow> hp)
      in buildAddr (URL_String (zeroURL\<lparr>Scheme := ''http'', Host := JoinHostPort host port\<rparr>)))"
  by pat_completeness auto

termination
proof (relation "measure (\<lambda>x. case x of Inl s \<Rightarrow> (if Contains s ''://'' then 0 else 2)
                                      | Inr s \<Rightarrow> 1)")
  show "wf (measure (\<lambda>x. case x of Inl s \<Rightarrow> (if Contains s ''://'' then 0 else 2)
                                      | Inr (s :: string) \<Rightarrow> (1 :: nat)))"
    by simp
next
  fix s :: string
  assume "\<not> Contains s ''://''"
  then show "(Inr s, Inl s) \<in> measure (\<lambda>x. case x of Inl s \<Rightarrow> (if Contains s ''://'' then 0 else 2)
                                      | Inr s \<Rightarrow> 1)"
    by simp
next
  fix s :: string and x :: "string \<times> string" and host port :: string
  show "(Inl (URL_String (zeroURL\<lparr>Scheme := ''http'', Host := JoinHostPort host port\<rparr>)), Inr s)
      \<in> measure (\<lambda>x. case x of Inl s \<Rightarrow> (if Contains s ''://'' then 0 else 2) | Inr s \<Rightarrow> 1)"
    by (simp add: URL_String_http JoinHostPort_not_Nil Contains_http del: append.simps)
qed

declare buildAddr.simps [simp del] buildHostPort.simps [simp del]


section \<open>The HTTP handler\<close>

text \<open>
  What the handler takes from outside, as parameters: the query values of the request
  (\<^verbatim>\<open>r.URL.Query()\<close>, a map from keys to lists of values), the \<^verbatim>\<open>Fetcher\<close>, the
  encoder of the exposition format, and the texts that the verbs \<^verbatim>\<open>%v\<close> and \<^verbatim>\<open>%q\<close> of
  \<^verbatim>\<open>fmt.Sprintf\<close> print for an error and for a string. The deadline of the context
  given to \<^verbatim>\<open>Fetch\<close> is not part of the model.
\<close>

record Response =
  StatusCode :: nat
  Body :: string

record Request =
  Query :: "string \<rightharpoonup> string list"

record 'e handler =
  Fetch :: "string \<Rightarrow> 'e + Data"
  encode :: "observation list \<Rightarrow> string"

record 'e Formatting =
  verb_v :: "error \<Rightarrow> string"
  verb_v_fetch :: "'e \<Rightarrow> string"
  verb_q :: "string \<Rightarrow> string"

definition StatusOK :: nat where
  "StatusOK = 200"

definition StatusBadRequest :: nat where
  "StatusBadRequest = 400"

definition StatusInternalServerError :: nat where
  "StatusInternalServerError = 500"

text \<open>\<^verbatim>\<open>Values.Get\<close> gives the first value of a key, or the empty string.\<close>

definition Get :: "(string \<rightharpoonup> string list) \<Rightarrow> string \<Rightarrow> string" where
  "Get v key = (case v key of None \<Rightarrow> [] | Some [] \<Rightarrow> [] | Some (x # xs) \<Rightarrow> x)"

text \<open>
  The effects of one call of \<^verbatim>\<open>ServeHTTP\<close>, in the order in which they happen, and the
  state they act on: whether \<^verbatim>\<open>h.mu\<close> is locked, the scrape function installed in
  \<^verbatim>\<open>h.mm\<close>, the response written, and a panic raised while gathering.
\<close>

datatype event =
  EvFetch string
  | EvLock
  | EvOnConstScrape
  | EvMetricsServeHTTP
  | EvUnlock
  | EvHttpError nat
  | EvCancel

record world =
  locked :: bool
  installed :: "ScrapeFunc option"
  written :: "Response option"
  panicked :: "panic option"
  events :: "event list"

definition start :: world where
  "start = \<lparr>locked = False, installed = None, written = None, panicked = None,
             events = []\<rparr>"

definition emit :: "event \<Rightarrow> world \<Rightarrow> world" where
  "emit e w = w\<lparr>events := events w @ [e]\<rparr>"

text \<open>\<^verbatim>\<open>http.Error\<close> writes the status code and the message followed by a newline.\<close>

definition http_Error :: "string \<Rightarrow> nat \<Rightarrow> world \<Rightarrow> world" where
  "http_Error msg code w =
     emit (EvHttpError code) (w\<lparr>written := Some \<lparr>StatusCode = code, Body = msg @ [CHR 0x0A]\<rparr>\<rparr>)"

definition mu_Lock :: "world \<Rightarrow> world" where
  "mu_Lock w = emit EvLock (w\<lparr>locked := True\<rparr>)"

definition mu_Unlock :: "world \<Rightarrow> world" where
  "mu_Unlock w = emit EvUnlock (w\<lparr>locked := False\<rparr>)"

definition OnConstScrape :: "ScrapeFunc \<Rightarrow> world \<Rightarrow> world" where
  "OnConstScrape scrape w = emit EvOnConstScrape (w\<lparr>installed := Some scrape\<rparr>)"

text \<open>
  Modelled from the spec: \<^verbatim>\<open>h.metrics\<close>, the handler that \<^verbatim>\<open>promhttp.HandlerFor\<close> makes
  for the registry, is not code of the exporter; the spec gives it as the exposition
  encoder, which renders the current gauge values as a response body, and gives the
  response on success as status 200 with that body.
  Serving a request, it gathers: the scrape function installed in \<^verbatim>\<open>h.mm\<close> is called
  with the map of the registered gauges, whose keys \<^verbatim>\<open>range\<close> visits in the order
  \<open>keys\<close>, and the observations it emits are encoded as the body. A panic of the scrape
  function leaves the call with no response written.
\<close>

definition metrics_ServeHTTP :: "'e handler \<Rightarrow> string list \<Rightarrow> world \<Rightarrow> world" where
  "metrics_ServeHTTP h keys w =
     emit EvMetricsServeHTTP
       (case installed w of
          None \<Rightarrow> w\<lparr>written := Some \<lparr>StatusCode = StatusOK, Body = encode h []\<rparr>\<rparr>
        | Some scrape \<Rightarrow>
            (case scrape keys of
               Inl p \<Rightarrow> w\<lparr>panicked := Some p\<rparr>
             | Inr obs \<Rightarrow> w\<lparr>written := Some \<lparr>StatusCode = StatusOK, Body = encode h obs\<rparr>\<rparr>))"

definition cancel :: "world \<Rightarrow> world" where
  "cancel w = emit EvCancel w"

text \<open>
  \<^verbatim>\<open>ServeHTTP\<close> implements \<^verbatim>\<open>http.Handler\<close>. The deferred calls run when the function
  returns or panics, the later one first: \<^verbatim>\<open>h.mu.Unlock\<close> (when it was deferred), then
  \<^verbatim>\<open>cancel\<close>. \<open>keys\<close> are the keys of the map of registered gauges in \<^verbatim>\<open>h.mm\<close>, in the
  order in which the gather of this call visits them.
\<close>

definition ServeHTTP ::
  "'e Formatting \<Rightarrow> 'e handler \<Rightarrow> string list \<Rightarrow> Request \<Rightarrow> world \<Rightarrow> world" where
  "ServeHTTP fm h keys r w =
     (let target = Get (Query r) ''target'' in
      if target = [] then
        cancel (http_Error ''missing target parameter'' StatusBadRequest w)
      else
        (case buildAddr target of
           Inl err \<Rightarrow>
             cancel (http_Error (''malformed target parameter: '' @ verb_v fm err)
                       StatusBadRequest w)
         | Inr addr \<Rightarrow>
             (let w1 = emit (EvFetch addr) w in
              case Fetch h addr of
                Inl err \<Rightarrow>
                  cancel (http_Error
                            (''failed to fetch Key Light data from '' @ verb_q fm addr @ '': ''
                             @ verb_v_fetch fm err)
                            StatusInternalServerError w1)
              | Inr d \<Rightarrow>
                  cancel (mu_Unlock (metrics_ServeHTTP h keys
                    (OnConstScrape (scrapeDevice d) (mu_Lock w1)))))))"

text \<open>Whether the lock is held after a sequence of events.\<close>

definition held :: "event list \<Rightarrow> bool" where
  "held es = foldl (\<lambda>b e. if e = EvLock then True else if e = EvUnlock then False else b) False es"

text \<open>
  A handler for examples: its fetcher knows the device of the tests at
  \<^verbatim>\<open>http://foo:9123\<close> and fails for any other address.
\<close>

definition test_formatting :: "string Formatting" where
  "test_formatting =
     \<lparr>verb_v = (\<lambda>err. ''invalid target''), verb_v_fetch = (\<lambda>err. err),
      verb_q = (\<lambda>s. [CHR 0x22] @ s @ [CHR 0x22])\<rparr>"

definition test_handler :: "string handler" where
  "test_handler =
     \<lparr>Fetch = (\<lambda>addr. if addr = ''http://foo:9123'' then Inr test_data else Inl ''no route''),
      encode = (\<lambda>obs. concat (map (\<lambda>ob. obs_name ob @ '' '' @ last (obs_labels ob) @ ''; '') obs))\<rparr>"


section \<open>Two requests served at once\<close>

text \<open>
  The end of \<^verbatim>\<open>ServeHTTP\<close>, after \<^verbatim>\<open>Fetch\<close> has returned the data \<open>d\<close>, one statement at a
  time: step 0 is \<^verbatim>\<open>h.mu.Lock()\<close>, step 1 is \<^verbatim>\<open>h.mm.OnConstScrape(scrapeDevice(d))\<close>,
  step 2 is \<^verbatim>\<open>h.metrics.ServeHTTP(w, r)\<close>, and step 3 is the deferred \<^verbatim>\<open>h.mu.Unlock()\<close>.
\<close>

definition section_step :: "'e handler \<Rightarrow> string list \<Rightarrow> Data \<Rightarrow> nat \<Rightarrow> world \<Rightarrow> world" where
  "section_step h keys d n w =
     (if n = 0 then mu_Lock w
      else if n = 1 then OnConstScrape (scrapeDevice d) w
      else if n = 2 then metrics_ServeHTTP h keys w
      else mu_Unlock w)"

text \<open>
  Two calls of \<^verbatim>\<open>ServeHTTP\<close> on one handler, named \<open>True\<close> and \<open>False\<close>, each in its own
  goroutine. They share the fields of the handler: the mutex \<^verbatim>\<open>h.mu\<close> and the scrape
  function installed in \<^verbatim>\<open>h.mm\<close>. Each call has its own \<^verbatim>\<open>ResponseWriter\<close>, its own
  data and its own place in the four steps, \<open>pc\<close>; \<open>call\<close> holds what the call has
  written and done.
\<close>

record conc =
  mu :: bool
  mm :: "ScrapeFunc option"
  pc :: "bool \<Rightarrow> nat"
  call :: "bool \<Rightarrow> world"

definition conc_start :: conc where
  "conc_start = \<lparr>mu = False, mm = None, pc = (\<lambda>r. 0), call = (\<lambda>r. start)\<rparr>"

text \<open>
  One step of the call \<open>r\<close>. A call that has done its four steps does nothing more.
  \<^verbatim>\<open>Lock\<close> of a \<^verbatim>\<open>sync.Mutex\<close> blocks until the mutex is unlocked: a call at step 0 does
  not move while the mutex is locked. Any other step runs on the shared fields as they
  are now, and leaves them as the step has made them.
\<close>

definition conc_step ::
  "'e handler \<Rightarrow> (bool \<Rightarrow> string list) \<Rightarrow> (bool \<Rightarrow> Data) \<Rightarrow> conc \<Rightarrow> bool \<Rightarrow> conc" where
  "conc_step h keys d c r =
     (if 4 \<le> pc c r then c
      else if pc c r = 0 \<and> mu c then c
      else
        (let w = section_step h (keys r) (d r) (pc c r)
                   ((call c r)\<lparr>locked := mu c, installed := mm c\<rparr>)
         in c\<lparr>mu := locked w, mm := installed w, pc := (pc c)(r := Suc (pc c r)),
              call := (call c)(r := w)\<rparr>))"

text \<open>
  A schedule says which call moves next; \<open>interleave\<close> runs the two calls from the
  start along a schedule.
\<close>

definition interleave ::
  "'e handler \<Rightarrow> (bool \<Rightarrow> string list) \<Rightarrow> (bool \<Rightarrow> Data) \<Rightarrow> bool list \<Rightarrow> conc" where
  "interleave h keys d sched = foldl (conc_step h keys d) conc_start sched"

text \<open>A call is in the section when it has taken the lock and not yet released it.\<close>

definition in_section :: "conc \<Rightarrow> bool \<Rightarrow> bool" where
  "in_section c r = (0 < pc c r \<and> pc c r < 4)"

text \<open>What holds of the two calls at every moment of every schedule.\<close>

definition serialized ::
  "'e handler \<Rightarrow> (bool \<Rightarrow> string list) \<Rightarrow> (bool \<Rightarrow> Data) \<Rightarrow> conc \<Rightarrow> bool" where
  "serialized h keys d c =
     ((mu c \<longleftrightarrow> in_section c True \<or> in_section c False) \<and>
      \<not> (in_section c True \<and> in_section c False) \<and>
      (\<forall>r. pc c r \<le> 4) \<and>
      (\<forall>r. pc c r = 2 \<or> pc c r = 3 \<longrightarrow> mm c = Some (scrapeDevice (d r))) \<and>
      (\<forall>r. pc c r \<le> 2 \<longrightarrow> written (call c r) = None) \<and>
      (\<forall>r. 3 \<le> pc c r \<longrightarrow>
         written (call c r) =
           Some \<lparr>StatusCode = StatusOK, Body = encode h (concat (map (emitted (d r)) (keys r)))\<rparr>) \<and>
      (\<forall>r. panicked (call c r) = None))"

text \<open>A second snapshot for examples, of another device with one light.\<close>

definition other_data :: Data where
  "other_data =
     \<lparr>Device = \<lparr>DisplayName = ''other'', FirmwareVersion = ''1.0.3'', SerialNumber = ''2222''\<rparr>,
      Lights = [\<lparr>On = True, Brightness = 35, Temperature = 2900\<rparr>]\<rparr>"

section \<open>Auxiliary definitions\<close>

text \<open>
  Functions used to state lemmas about the library code. \<open>dec\<close> decodes \<^verbatim>\<open>%XX\<close> without
  any check, and \<open>complete\<close> says that every \<^verbatim>\<open>%\<close> of a string has its two digits.
\<close>

fun dec :: "string \<Rightarrow> string" where
  "dec [] = []"
| "dec (c # s) =
     (if c = CHR ''%'' then
        (case s of a # b # s' \<Rightarrow> char_of (16 * unhex a + unhex b) # dec s' | _ \<Rightarrow> [])
      else c # dec s)"

fun complete :: "string \<Rightarrow> bool" where
  "complete [] = True"
| "complete (c # s) =
     (if c = CHR ''%'' then (case s of a # b # s' \<Rightarrow> complete s' | _ \<Rightarrow> False)
      else complete s)"

text \<open>The URL after the scheme and the query have been read.\<close>

definition afterQuery :: "string \<Rightarrow> string \<Rightarrow> string \<times> URL" where
  "afterQuery scheme rest0 =
     (let url = zeroURL\<lparr>Scheme := ToLower scheme\<rparr> in
      if HasSuffix rest0 ''?'' \<and> CountByte rest0 CHR ''?'' = 1 then
        (butlast rest0, url\<lparr>ForceQuery := True\<rparr>)
      else (let (r, q) = split rest0 CHR ''?'' True in (r, url\<lparr>RawQuery := q\<rparr>)))"

text \<open>
  The user part and the tail (query and fragment) of a URL as \<^verbatim>\<open>String\<close> prints them.
\<close>

definition userPart :: "URL \<Rightarrow> string" where
  "userPart u = (case User u of None \<Rightarrow> [] | Some ui \<Rightarrow> Userinfo_String ui @ ''@'')"

definition tailPart :: "URL \<Rightarrow> string" where
  "tailPart u =
     (if ForceQuery u \<or> RawQuery u \<noteq> [] then ''?'' @ RawQuery u else [])
     @ (if Fragment u \<noteq> [] then ''#'' @ escape (Fragment u) encodeFragment else [])"


section \<open>Properties of the scrape function\<close>

lemma itoa_small: "n < 10 \<Longrightarrow> itoa n = [digit n]"
  by (subst itoa.simps) simp

lemma itoa_large: "\<not> n < 10 \<Longrightarrow> itoa n = itoa (n div 10) @ [digit (n mod 10)]"
  by (subst itoa.simps) simp

lemma bits_0: "bits 0 = 0"
  by (simp add: bits.simps)

lemma bits_pos: "n \<noteq> 0 \<Longrightarrow> bits n = Suc (bits (n div 2))"
  by (subst bits.simps) simp

lemma bits_le: "n < 2 ^ k \<Longrightarrow> bits n \<le> k"
proof (induction k arbitrary: n)
  case 0
  then show ?case by (simp add: bits_0)
next
  case (Suc k)
  show ?case
  proof (cases "n = 0")
    case True
    then show ?thesis by (simp add: bits_0)
  next
    case False
    from Suc.prems have "n div 2 < 2 ^ k" by auto
    then have "bits (n div 2) \<le> k" by (rule Suc.IH)
    with False show ?thesis by (simp add: bits_pos)
  qed
qed

text \<open>An integer of at most 53 bits is converted to itself.\<close>

lemma float64_exact: "\<bar>x\<bar> < 2 ^ 53 \<Longrightarrow> float64 x = of_int x"
proof -
  assume "\<bar>x\<bar> < 2 ^ 53"
  then have "nat \<bar>x\<bar> < 2 ^ 53" by (simp add: nat_less_iff)
  then have "bits (nat \<bar>x\<bar>) \<le> 53" by (rule bits_le)
  then show ?thesis by (simp add: float64_def Let_def)
qed

text \<open>
  \<open>itoa\<close> writes the decimal digits of its argument: reading them gives the number
  back, so different positions get different labels.
\<close>

lemma digit_value: "n < 10 \<Longrightarrow> (of_char (digit n) :: nat) = 48 + n"
proof -
  assume "n < 10"
  then have "n = 0 \<or> n = 1 \<or> n = 2 \<or> n = 3 \<or> n = 4 \<or> n = 5 \<or> n = 6 \<or> n = 7 \<or> n = 8 \<or> n = 9"
    by arith
  then show ?thesis
    by (elim disjE) (simp_all add: digit_def)
qed

lemma itoa_decimal: "foldl (\<lambda>a c. 10 * a + (of_char c - 48)) (0 :: nat) (itoa n) = n"
proof (induction n rule: itoa.induct)
  case (1 n)
  show ?case
  proof (cases "n < 10")
    case True
    then show ?thesis by (simp add: itoa_small digit_value)
  next
    case False
    have "n mod 10 < 10" by simp
    then have d: "(of_char (digit (n mod 10)) :: nat) = 48 + n mod 10" by (rule digit_value)
    from False have "foldl (\<lambda>a c. 10 * a + (of_char c - 48)) 0 (itoa (n div 10)) = n div 10"
      by (rule "1.IH")
    then show ?thesis
      by (simp add: itoa_large [OF False] d)
  qed
qed

lemma itoa_inj: "itoa m = itoa n \<Longrightarrow> m = n"
proof -
  assume "itoa m = itoa n"
  then have "foldl (\<lambda>a c. 10 * a + (of_char c - 48)) (0 :: nat) (itoa m) =
      foldl (\<lambda>a c. 10 * a + (of_char c - 48)) (0 :: nat) (itoa n)"
    by (rule arg_cong)
  then show ?thesis by (simp only: itoa_decimal)
qed

lemma names_distinct: "distinct registered"
  by (simp add: registered_def klInfo_def klLightOn_def klLightBrightnessPercent_def
      klLightTemperatureKelvin_def)

lemma names_neq [simp]:
  "klInfo \<noteq> klLightOn" "klInfo \<noteq> klLightBrightnessPercent"
  "klInfo \<noteq> klLightTemperatureKelvin" "klLightOn \<noteq> klInfo"
  "klLightOn \<noteq> klLightBrightnessPercent" "klLightOn \<noteq> klLightTemperatureKelvin"
  "klLightBrightnessPercent \<noteq> klInfo" "klLightBrightnessPercent \<noteq> klLightOn"
  "klLightBrightnessPercent \<noteq> klLightTemperatureKelvin"
  "klLightTemperatureKelvin \<noteq> klInfo" "klLightTemperatureKelvin \<noteq> klLightOn"
  "klLightTemperatureKelvin \<noteq> klLightBrightnessPercent"
  by (simp_all add: klInfo_def klLightOn_def klLightBrightnessPercent_def
      klLightTemperatureKelvin_def)

lemma scrapeLights_on:
  "scrapeLights klLightOn serial i ls =
     Inr (map (\<lambda>(j, l). Observation klLightOn (boolFloat (On l)) [''light'' @ itoa j, serial])
            (enumerate i ls))"
  by (induction ls arbitrary: i) simp_all

lemma scrapeLights_brightness:
  "scrapeLights klLightBrightnessPercent serial i ls =
     Inr (map (\<lambda>(j, l). Observation klLightBrightnessPercent (float64 (Brightness l))
                 [''light'' @ itoa j, serial])
            (enumerate i ls))"
  by (induction ls arbitrary: i) simp_all

lemma scrapeLights_temperature:
  "scrapeLights klLightTemperatureKelvin serial i ls =
     Inr (map (\<lambda>(j, l). Observation klLightTemperatureKelvin (float64 (Temperature l))
                 [''light'' @ itoa j, serial])
            (enumerate i ls))"
  by (induction ls arbitrary: i) simp_all


lemma emitted_simps:
  "emitted d klInfo =
     [Observation klInfo 1
        [FirmwareVersion (Device d), DisplayName (Device d), SerialNumber (Device d)]]"
  "emitted d klLightOn =
     map (\<lambda>(j, l). Observation klLightOn (boolFloat (On l))
            [''light'' @ itoa j, SerialNumber (Device d)]) (enumerate 0 (Lights d))"
  "emitted d klLightBrightnessPercent =
     map (\<lambda>(j, l). Observation klLightBrightnessPercent (float64 (Brightness l))
            [''light'' @ itoa j, SerialNumber (Device d)]) (enumerate 0 (Lights d))"
  "emitted d klLightTemperatureKelvin =
     map (\<lambda>(j, l). Observation klLightTemperatureKelvin (float64 (Temperature l))
            [''light'' @ itoa j, SerialNumber (Device d)]) (enumerate 0 (Lights d))"
  by (simp_all add: emitted_def)

lemma scrapeMetrics_registered:
  "set keys \<subseteq> set registered \<Longrightarrow>
   scrapeMetrics d (SerialNumber (Device d)) keys = Inr (concat (map (emitted d) keys))"
proof (induction keys)
  case Nil
  show ?case by simp
next
  case (Cons name keys)
  then have rest: "scrapeMetrics d (SerialNumber (Device d)) keys = Inr (concat (map (emitted d) keys))"
    by simp
  from Cons.prems have "name \<in> set registered" by simp
  then consider "name = klInfo" | "name = klLightOn" | "name = klLightBrightnessPercent"
    | "name = klLightTemperatureKelvin"
    by (auto simp: registered_def)
  then show ?case
  proof cases
    case 1 then show ?thesis by (simp add: rest emitted_simps)
  next
    case 2 then show ?thesis by (simp add: rest emitted_simps scrapeLights_on)
  next
    case 3 then show ?thesis by (simp add: rest emitted_simps scrapeLights_brightness)
  next
    case 4 then show ?thesis by (simp add: rest emitted_simps scrapeLights_temperature)
  qed
qed

lemma emitted_name: "name \<in> set registered \<Longrightarrow> ob \<in> set (emitted d name) \<Longrightarrow> obs_name ob = name"
  by (auto simp: registered_def emitted_def)

lemma filter_emitted:
  "name \<in> set registered \<Longrightarrow>
   filter (\<lambda>ob. obs_name ob = n) (emitted d name) = (if name = n then emitted d name else [])"
  by (auto simp: filter_empty_conv dest: emitted_name intro!: filter_True)

lemma filter_concat_emitted:
  "set keys \<subseteq> set registered \<Longrightarrow> distinct keys \<Longrightarrow> n \<in> set keys \<Longrightarrow>
   filter (\<lambda>ob. obs_name ob = n) (concat (map (emitted d) keys)) = emitted d n"
proof (induction keys)
  case Nil
  then show ?case by simp
next
  case (Cons m keys)
  have no: "filter (\<lambda>ob. obs_name ob = n) (concat (map (emitted d) ms)) = []"
    if "n \<notin> set ms" "set ms \<subseteq> set registered" for ms
    using that by (induction ms) (auto simp: filter_emitted)
  show ?case
  proof (cases "m = n")
    case True
    with Cons.prems have "n \<notin> set keys" "set keys \<subseteq> set registered" by auto
    then show ?thesis using Cons.prems True by (simp add: filter_emitted no)
  next
    case False
    then show ?thesis using Cons by (simp add: filter_emitted)
  qed
qed


lemma scrapeMetrics_unregistered:
  "\<not> set keys \<subseteq> set registered \<Longrightarrow>
   \<exists>n. n \<in> set keys \<and> n \<notin> set registered \<and>
     scrapeMetrics d serial keys = Inl (UnhandledMetric n)"
proof (induction keys)
  case Nil
  then show ?case by simp
next
  case (Cons name keys)
  show ?case
  proof (cases "name \<in> set registered")
    case False
    then have "scrapeMetrics d serial (name # keys) = Inl (UnhandledMetric name)"
      by (simp add: registered_def)
    with False show ?thesis by auto
  next
    case True
    with Cons.prems have "\<not> set keys \<subseteq> set registered" by simp
    from Cons.IH [OF this] obtain n where n: "n \<in> set keys" "n \<notin> set registered"
      "scrapeMetrics d serial keys = Inl (UnhandledMetric n)" by blast
    from True consider "name = klInfo" | "name = klLightOn" | "name = klLightBrightnessPercent"
      | "name = klLightTemperatureKelvin"
      by (auto simp: registered_def)
    then have "scrapeMetrics d serial (name # keys) = Inl (UnhandledMetric n)"
      by cases (simp_all add: n scrapeLights_on scrapeLights_brightness scrapeLights_temperature)
    with n show ?thesis by auto
  qed
qed

text \<open>
  Claim C3. For every snapshot with N lights (N = 0 included), a scrape over the four
  registered gauges emits exactly N observations of each of the three per-light gauges
  and exactly one observation of the device-info gauge, with value 1 and the labels
  firmware version, display name and serial number. The keys of the keys map are
  the four registered names, each once, visited in any order.
\<close>

theorem scrapeDevice_counts:
  assumes "distinct keys" and "set keys = set registered"
  shows "\<exists>obs. scrapeDevice d keys = Inr obs \<and>
     length (filter (\<lambda>ob. obs_name ob = klLightOn) obs) = length (Lights d) \<and>
     length (filter (\<lambda>ob. obs_name ob = klLightBrightnessPercent) obs) = length (Lights d) \<and>
     length (filter (\<lambda>ob. obs_name ob = klLightTemperatureKelvin) obs) = length (Lights d) \<and>
     filter (\<lambda>ob. obs_name ob = klInfo) obs =
       [Observation klInfo 1
          [FirmwareVersion (Device d), DisplayName (Device d), SerialNumber (Device d)]] \<and>
     length obs = 3 * length (Lights d) + 1"
proof -
  from assms have sub: "set keys \<subseteq> set registered" by simp
  have run: "scrapeDevice d keys = Inr (concat (map (emitted d) keys))"
    by (simp add: scrapeDevice_def scrapeMetrics_registered [OF sub])
  have "sum_list (map (\<lambda>k. length (emitted d k)) keys) =
      sum (\<lambda>k. length (emitted d k)) (set keys)"
    using assms(1) by (rule sum_list_distinct_conv_sum_set)
  also have "\<dots> = sum (\<lambda>k. length (emitted d k)) (set registered)"
    using assms(2) by simp
  also have "\<dots> = sum_list (map (\<lambda>k. length (emitted d k)) registered)"
    using names_distinct by (rule sum_list_distinct_conv_sum_set [symmetric])
  finally have "sum_list (map (\<lambda>k. length (emitted d k)) keys) =
      sum_list (map (\<lambda>k. length (emitted d k)) registered)" .
  then have total: "length (concat (map (emitted d) keys)) = 3 * length (Lights d) + 1"
    by (simp add: length_concat comp_def registered_def emitted_simps)
  have pick: "filter (\<lambda>ob. obs_name ob = n) (concat (map (emitted d) keys)) = emitted d n"
    if "n \<in> set registered" for n
    using that assms by (intro filter_concat_emitted [OF sub]) simp_all
  have "klInfo \<in> set registered" "klLightOn \<in> set registered"
    "klLightBrightnessPercent \<in> set registered" "klLightTemperatureKelvin \<in> set registered"
    by (simp_all add: registered_def)
  then show ?thesis
    by (simp add: run pick emitted_simps total)
qed

theorem scrapeDevice_counts_witness:
  "\<exists>obs. scrapeDevice test_data (rev registered) = Inr obs \<and>
     length (filter (\<lambda>ob. obs_name ob = klLightOn) obs) = 2 \<and>
     length (filter (\<lambda>ob. obs_name ob = klLightBrightnessPercent) obs) = 2 \<and>
     length (filter (\<lambda>ob. obs_name ob = klLightTemperatureKelvin) obs) = 2 \<and>
     filter (\<lambda>ob. obs_name ob = klInfo) obs = [Observation klInfo 1 [''1.0.0'', ''test'', ''1111'']] \<and>
     length obs = 7"
  using scrapeDevice_counts [of "rev registered" test_data] names_distinct
  by (simp add: test_data_def numeral_2_eq_2)

text \<open>
  Claim C4. For every snapshot, a scrape over the four registered gauges returns, and
  among its observations each per-light gauge has one for every light; for the light
  at zero-based position i, the i-th observation of each per-light gauge carries the
  labels \<open>light<i>\<close> and the device's serial number; the on/off value is 1 when the light
  is on and 0 when it is off, and the brightness and temperature values are the fields
  converted by \<^verbatim>\<open>float64\<close>, with nothing else applied: the integer itself when it has
  at most 53 bits. The keys of the map are the four registered names, each once,
  visited in any order.
\<close>

theorem scrapeDevice_light_observations:
  assumes "distinct keys" and "set keys = set registered"
  shows "\<exists>obs. scrapeDevice d keys = Inr obs \<and>
     length (filter (\<lambda>ob. obs_name ob = klLightOn) obs) = length (Lights d) \<and>
     length (filter (\<lambda>ob. obs_name ob = klLightBrightnessPercent) obs) = length (Lights d) \<and>
     length (filter (\<lambda>ob. obs_name ob = klLightTemperatureKelvin) obs) = length (Lights d) \<and>
     (\<forall>i < length (Lights d).
        filter (\<lambda>ob. obs_name ob = klLightOn) obs ! i =
          Observation klLightOn (if On (Lights d ! i) then 1 else 0)
            [''light'' @ itoa i, SerialNumber (Device d)] \<and>
        filter (\<lambda>ob. obs_name ob = klLightBrightnessPercent) obs ! i =
          Observation klLightBrightnessPercent (float64 (Brightness (Lights d ! i)))
            [''light'' @ itoa i, SerialNumber (Device d)] \<and>
        filter (\<lambda>ob. obs_name ob = klLightTemperatureKelvin) obs ! i =
          Observation klLightTemperatureKelvin (float64 (Temperature (Lights d ! i)))
            [''light'' @ itoa i, SerialNumber (Device d)] \<and>
        (\<bar>Brightness (Lights d ! i)\<bar> < 2 ^ 53 \<longrightarrow>
           float64 (Brightness (Lights d ! i)) = of_int (Brightness (Lights d ! i))) \<and>
        (\<bar>Temperature (Lights d ! i)\<bar> < 2 ^ 53 \<longrightarrow>
           float64 (Temperature (Lights d ! i)) = of_int (Temperature (Lights d ! i))))"
proof -
  from assms have sub: "set keys \<subseteq> set registered" by simp
  have run: "scrapeDevice d keys = Inr (concat (map (emitted d) keys))"
    by (simp add: scrapeDevice_def scrapeMetrics_registered [OF sub])
  have pick: "filter (\<lambda>ob. obs_name ob = n) (concat (map (emitted d) keys)) = emitted d n"
    if "n \<in> set registered" for n
    using that assms by (intro filter_concat_emitted [OF sub]) simp_all
  have "klLightOn \<in> set registered"
    "klLightBrightnessPercent \<in> set registered" "klLightTemperatureKelvin \<in> set registered"
    by (simp_all add: registered_def)
  then show ?thesis
    by (simp add: run pick emitted_simps nth_enumerate_eq boolFloat_def float64_exact)
qed

lemma test_data_scrape:
  "scrapeDevice test_data registered = Inr
     [Observation klInfo 1 [''1.0.0'', ''test'', ''1111''],
      Observation klLightOn 1 [''light0'', ''1111''],
      Observation klLightOn 0 [''light1'', ''1111''],
      Observation klLightBrightnessPercent 20 [''light0'', ''1111''],
      Observation klLightBrightnessPercent 0 [''light1'', ''1111''],
      Observation klLightTemperatureKelvin 4200 [''light0'', ''1111''],
      Observation klLightTemperatureKelvin 0 [''light1'', ''1111'']]"
  by (simp add: scrapeDevice_def test_data_def registered_def itoa_small digit_def
      boolFloat_def float64_def bits_0 bits_pos)

theorem scrapeDevice_light_observations_witness:
  "\<exists>obs. scrapeDevice test_data (rev registered) = Inr obs \<and>
     length (filter (\<lambda>ob. obs_name ob = klLightOn) obs) = 2 \<and>
     filter (\<lambda>ob. obs_name ob = klLightOn) obs ! 0 =
       Observation klLightOn 1 [''light0'', ''1111''] \<and>
     filter (\<lambda>ob. obs_name ob = klLightOn) obs ! 1 =
       Observation klLightOn 0 [''light1'', ''1111''] \<and>
     filter (\<lambda>ob. obs_name ob = klLightBrightnessPercent) obs ! 0 =
       Observation klLightBrightnessPercent 20 [''light0'', ''1111''] \<and>
     filter (\<lambda>ob. obs_name ob = klLightTemperatureKelvin) obs ! 0 =
       Observation klLightTemperatureKelvin 4200 [''light0'', ''1111'']"
proof -
  from scrapeDevice_light_observations [of "rev registered" test_data] names_distinct
  obtain obs where run: "scrapeDevice test_data (rev registered) = Inr obs"
    and len: "length (filter (\<lambda>ob. obs_name ob = klLightOn) obs) = length (Lights test_data)"
    and each: "\<forall>i < length (Lights test_data).
        filter (\<lambda>ob. obs_name ob = klLightOn) obs ! i =
          Observation klLightOn (if On (Lights test_data ! i) then 1 else 0)
            [''light'' @ itoa i, SerialNumber (Device test_data)] \<and>
        filter (\<lambda>ob. obs_name ob = klLightBrightnessPercent) obs ! i =
          Observation klLightBrightnessPercent (float64 (Brightness (Lights test_data ! i)))
            [''light'' @ itoa i, SerialNumber (Device test_data)] \<and>
        filter (\<lambda>ob. obs_name ob = klLightTemperatureKelvin) obs ! i =
          Observation klLightTemperatureKelvin (float64 (Temperature (Lights test_data ! i)))
            [''light'' @ itoa i, SerialNumber (Device test_data)] \<and>
        (\<bar>Brightness (Lights test_data ! i)\<bar> < 2 ^ 53 \<longrightarrow>
           float64 (Brightness (Lights test_data ! i)) =
             of_int (Brightness (Lights test_data ! i))) \<and>
        (\<bar>Temperature (Lights test_data ! i)\<bar> < 2 ^ 53 \<longrightarrow>
           float64 (Temperature (Lights test_data ! i)) =
             of_int (Temperature (Lights test_data ! i)))"
    by auto
  from each [rule_format, of 0] each [rule_format, of 1] len
  have "length (filter (\<lambda>ob. obs_name ob = klLightOn) obs) = 2 \<and>
     filter (\<lambda>ob. obs_name ob = klLightOn) obs ! 0 =
       Observation klLightOn 1 [''light0'', ''1111''] \<and>
     filter (\<lambda>ob. obs_name ob = klLightOn) obs ! 1 =
       Observation klLightOn 0 [''light1'', ''1111''] \<and>
     filter (\<lambda>ob. obs_name ob = klLightBrightnessPercent) obs ! 0 =
       Observation klLightBrightnessPercent 20 [''light0'', ''1111''] \<and>
     filter (\<lambda>ob. obs_name ob = klLightTemperatureKelvin) obs ! 0 =
       Observation klLightTemperatureKelvin 4200 [''light0'', ''1111'']"
    by (simp add: test_data_def itoa_small digit_def)
  with run show ?thesis by blast
qed

text \<open>
  Claim C10. A scrape over a map with a key outside the four registered gauges ends in
  the panic of the outer \<^verbatim>\<open>default\<close> branch for such a key, instead of skipping it;
  over registered keys only, no panic is raised (neither the outer nor the inner
  \<^verbatim>\<open>default\<close> branch is taken) and the pass returns its observations.
\<close>

theorem scrapeDevice_unhandled:
  "(set keys \<subseteq> set registered \<longrightarrow> (\<exists>obs. scrapeDevice d keys = Inr obs)) \<and>
   (\<not> set keys \<subseteq> set registered \<longrightarrow>
      (\<exists>n. n \<in> set keys \<and> n \<notin> set registered \<and>
         scrapeDevice d keys = Inl (UnhandledMetric n)))"
  using scrapeMetrics_unregistered [of keys d "SerialNumber (Device d)"]
  by (auto simp: scrapeDevice_def scrapeMetrics_registered)

theorem scrapeDevice_unhandled_witness:
  "(\<exists>obs. scrapeDevice test_data registered = Inr obs) \<and>
   scrapeDevice test_data [klInfo, ''keylight_other'', klLightOn] =
     Inl (UnhandledMetric ''keylight_other'')"
proof -
  have a: "set registered \<subseteq> set registered" by simp
  have b: "\<not> set [klInfo, ''keylight_other'', klLightOn] \<subseteq> set registered"
    by (simp add: registered_def klInfo_def klLightOn_def klLightBrightnessPercent_def
        klLightTemperatureKelvin_def)
  from scrapeDevice_unhandled [of registered test_data] a
  have "\<exists>obs. scrapeDevice test_data registered = Inr obs" by blast
  moreover from scrapeDevice_unhandled [of "[klInfo, ''keylight_other'', klLightOn]" test_data] b
  obtain n where "n \<in> set [klInfo, ''keylight_other'', klLightOn]" "n \<notin> set registered"
    "scrapeDevice test_data [klInfo, ''keylight_other'', klLightOn] = Inl (UnhandledMetric n)"
    by blast
  then have "scrapeDevice test_data [klInfo, ''keylight_other'', klLightOn] =
      Inl (UnhandledMetric ''keylight_other'')"
    by (auto simp: registered_def)
  ultimately show ?thesis by simp
qed

section \<open>Properties of the address builder\<close>

lemma buildAddr_foo: "buildAddr ''foo'' = Inr ''http://foo:9123''"
  by code_simp

lemma buildAddr_foo_port: "buildAddr ''foo:9123'' = Inr ''http://foo:9123''"
  by code_simp

lemma buildAddr_bar: "buildAddr ''bar'' = Inr ''http://bar:9123''"
  by code_simp

lemma buildAddr_foo_bar:
  "buildAddr ''foo:bar'' =
     Inl (ParseError (url_Error ''parse'' ''http://foo:bar'' (InvalidPort '':bar'')))"
  by code_simp

lemma buildAddr_http_slash: "buildAddr ''http://foo:9123/'' = Inr ''http://foo:9123''"
  by code_simp

lemma buildAddr_http: "buildAddr ''http://foo:9123'' = Inr ''http://foo:9123''"
  by code_simp

lemma buildAddr_sftp:
  "buildAddr ''sftp://foo'' = Inl (InvalidDeviceURL (zeroURL\<lparr>Scheme := ''sftp'', Host := ''foo''\<rparr>))"
  by code_simp

lemma buildAddr_no_host:
  "buildAddr ''http://'' = Inl (InvalidDeviceURL (zeroURL\<lparr>Scheme := ''http''\<rparr>))"
  by code_simp

lemma buildAddr_path:
  "buildAddr ''http://foo/bar'' =
     Inl (InvalidDeviceURL (zeroURL\<lparr>Scheme := ''http'', Host := ''foo'', Path := ''/bar''\<rparr>))"
  by code_simp

lemma SplitHostPort_foo_bar: "SplitHostPort ''foo:bar'' = Inr (''foo'', ''bar'')"
  by code_simp

text \<open>
  Claim C6. \<^verbatim>\<open>buildAddr\<close> maps \<^verbatim>\<open>foo\<close> to \<^verbatim>\<open>http://foo:9123\<close> (the default port
  \<^verbatim>\<open>keylightPort\<close>), \<^verbatim>\<open>foo:9123\<close> to \<^verbatim>\<open>http://foo:9123\<close>, \<^verbatim>\<open>http://foo:9123/\<close> to
  \<^verbatim>\<open>http://foo:9123\<close> (the bare trailing slash is dropped), and leaves
  \<^verbatim>\<open>http://foo:9123\<close> as it is.
\<close>

theorem buildAddr_accepts:
  "buildAddr ''foo'' = Inr (''http://foo:'' @ keylightPort) \<and>
   keylightPort = ''9123'' \<and>
   buildAddr ''foo:9123'' = Inr ''http://foo:9123'' \<and>
   buildAddr ''http://foo:9123/'' = Inr ''http://foo:9123'' \<and>
   buildAddr ''http://foo:9123'' = Inr ''http://foo:9123''"
  by (simp add: buildAddr_foo buildAddr_foo_port buildAddr_http_slash buildAddr_http
      keylightPort_def)

text \<open>
  Claim C5. Each of \<^verbatim>\<open>sftp://foo\<close>, \<^verbatim>\<open>http://\<close>, \<^verbatim>\<open>foo:bar\<close> and \<^verbatim>\<open>http://foo/bar\<close>
  makes \<^verbatim>\<open>buildAddr\<close> return an error. For \<^verbatim>\<open>foo:bar\<close> the host and port are split as
  \<^verbatim>\<open>foo\<close> and \<^verbatim>\<open>bar\<close>, and the URL \<^verbatim>\<open>http://foo:bar\<close> built from them is refused by
  \<^verbatim>\<open>url.Parse\<close> for its port: the target is neither accepted with port \<^verbatim>\<open>bar\<close> nor
  given the default port.
\<close>

theorem buildAddr_rejects:
  "buildAddr ''sftp://foo'' =
     Inl (InvalidDeviceURL (zeroURL\<lparr>Scheme := ''sftp'', Host := ''foo''\<rparr>)) \<and>
   buildAddr ''http://'' = Inl (InvalidDeviceURL (zeroURL\<lparr>Scheme := ''http''\<rparr>)) \<and>
   SplitHostPort ''foo:bar'' = Inr (''foo'', ''bar'') \<and>
   buildAddr ''foo:bar'' =
     Inl (ParseError (url_Error ''parse'' ''http://foo:bar'' (InvalidPort '':bar''))) \<and>
   buildAddr ''http://foo/bar'' =
     Inl (InvalidDeviceURL (zeroURL\<lparr>Scheme := ''http'', Host := ''foo'', Path := ''/bar''\<rparr>))"
  by (simp add: buildAddr_sftp buildAddr_no_host buildAddr_foo_bar buildAddr_path
      SplitHostPort_foo_bar)

section \<open>Escaping and parsing\<close>

lemma unescape_dec:
  "mode \<noteq> encodeQueryComponent \<Longrightarrow> unescape s mode = Inr t \<Longrightarrow> t = dec s"
  by (induction s mode arbitrary: t rule: unescape.induct)
    (auto split: if_splits list.splits sum.splits)

lemma unescape_complete: "unescape s mode = Inr t \<Longrightarrow> complete s"
  by (induction s mode arbitrary: t rule: unescape.induct)
    (auto split: if_splits list.splits sum.splits)

lemma dec_append: "complete a \<Longrightarrow> dec (a @ b) = dec a @ dec b"
proof (induction a rule: complete.induct)
  case 1
  show ?case by simp
next
  case (2 c s)
  show ?case
  proof (cases "c = CHR ''%''")
    case True
    with "2.prems" obtain x y s' where s: "s = x # y # s'" and c: "complete s'"
      by (auto split: list.splits)
    from "2.IH"(1) [OF True s refl c] have "dec (s' @ b) = dec s' @ dec b" .
    with True s show ?thesis by simp
  next
    case False
    with "2.prems" have "complete s" by simp
    from "2.IH"(2) [OF False this] False show ?thesis by simp
  qed
qed

lemma unhex_upperhex: "n < 16 \<Longrightarrow> unhex (upperhex ! n) = n"
proof -
  assume "n < 16"
  then have "n = 0 \<or> n = 1 \<or> n = 2 \<or> n = 3 \<or> n = 4 \<or> n = 5 \<or> n = 6 \<or> n = 7 \<or> n = 8
      \<or> n = 9 \<or> n = 10 \<or> n = 11 \<or> n = 12 \<or> n = 13 \<or> n = 14 \<or> n = 15"
    by arith
  then show ?thesis
    by (elim disjE) (simp_all add: upperhex_def unhex_def byte_in_def)
qed

lemma shouldEscape_percent: "shouldEscape CHR ''%'' mode"
  by (cases mode) (simp_all add: shouldEscape_def byte_in_def)

lemma dec_escapeByte:
  "mode \<noteq> encodeQueryComponent \<Longrightarrow> dec (escapeByte mode c @ t) = c # dec t"
proof -
  assume m: "mode \<noteq> encodeQueryComponent"
  have "(of_char c :: nat) < 16 * 16"
    using nat_of_char_less_256 [of c] by simp
  then have lt: "(of_char c :: nat) div 16 < 16"
    by (rule less_mult_imp_div_less)
  have ltm: "(of_char c :: nat) mod 16 < 16"
    by simp
  have recomb: "16 * ((of_char c :: nat) div 16) + of_char c mod 16 = of_char c"
    by simp
  show ?thesis
  proof (cases "shouldEscape c mode")
    case True
    then show ?thesis
      using m by (simp add: escapeByte_def unhex_upperhex [OF lt] unhex_upperhex [OF ltm] recomb)
  next
    case False
    with shouldEscape_percent have "c \<noteq> CHR ''%''" by auto
    with False show ?thesis using m by (simp add: escapeByte_def)
  qed
qed

lemma dec_escape: "mode \<noteq> encodeQueryComponent \<Longrightarrow> dec (escape h mode) = h"
  by (induction h) (simp_all add: escape_def dec_escapeByte)

lemma Index_le: "Index s sep = Some n \<Longrightarrow> n \<le> length s"
  by (induction s arbitrary: n) (auto split: if_splits)

lemma parseHost_zone:
  assumes "Index (take i x) ''%25'' = Some z" and "unescape (take z x) encodeHost = Inr h1"
    and "unescape (drop z (take i x)) encodeZone = Inr h2"
    and "unescape (drop i x) encodeHost = Inr h3"
  shows "h1 @ h2 @ h3 = dec x"
proof -
  from assms(1) have "z \<le> length (take i x)" by (rule Index_le)
  then have zi: "z \<le> i" by simp
  have "take i x = take z (take i x) @ drop z (take i x)"
    by (rule append_take_drop_id [symmetric])
  moreover have "take z (take i x) = take z x" using zi by (simp add: min_def)
  ultimately have "take i x = take z x @ drop z (take i x)" by simp
  then have x: "x = take z x @ drop z (take i x) @ drop i x"
    by (metis append_take_drop_id append_assoc)
  have "dec x = dec (take z x @ (drop z (take i x) @ drop i x))"
    using x by simp
  also have "\<dots> = dec (take z x) @ dec (drop z (take i x) @ drop i x)"
    using assms(2) by (intro dec_append unescape_complete)
  also have "\<dots> = dec (take z x) @ dec (drop z (take i x)) @ dec (drop i x)"
    using assms(3) by (simp add: dec_append unescape_complete)
  finally show ?thesis
    using unescape_dec [OF _ assms(2)] unescape_dec [OF _ assms(3)] unescape_dec [OF _ assms(4)]
    by simp
qed

lemma unescape_host_dec: "unescape x encodeHost = Inr h \<Longrightarrow> h = dec x"
  by (rule unescape_dec) simp_all

lemma parseHost_dec: "parseHost x = Inr h \<Longrightarrow> h = dec x"
  unfolding parseHost_def Let_def
  by (auto simp: parseHost_zone dest: unescape_host_dec split: if_splits option.splits sum.splits)

lemma parseHost_escape: "parseHost (escape hp encodeHost) = Inr h \<Longrightarrow> h = hp"
  by (auto dest!: parseHost_dec simp: dec_escape)

lemma unescape_Nil: "unescape x mode = Inr [] \<Longrightarrow> x = []"
  by (cases x) (auto split: if_splits list.splits sum.splits)

lemma IndexByte_None: "IndexByte s c = None \<longleftrightarrow> c \<notin> set s"
  by (induction s) auto

lemma LastIndexByte_None: "LastIndexByte s c = None \<longleftrightarrow> c \<notin> set s"
  by (induction s) (auto split: option.splits)

lemma upperhex_nth: "n < 16 \<Longrightarrow> upperhex ! n \<in> set upperhex"
  by (rule nth_mem) (simp add: upperhex_def)

lemma escapeByte_chars:
  "x \<in> set (escapeByte mode c) \<Longrightarrow>
   x = CHR ''%'' \<or> x \<in> set upperhex \<or> (x = c \<and> \<not> shouldEscape c mode)
   \<or> (x = CHR ''+'' \<and> mode = encodeQueryComponent)"
proof -
  have "(of_char c :: nat) < 16 * 16"
    using nat_of_char_less_256 [of c] by simp
  then have "(of_char c :: nat) div 16 < 16"
    by (rule less_mult_imp_div_less)
  then have hi: "upperhex ! (of_char c div 16) \<in> set upperhex"
    by (rule upperhex_nth)
  have lo: "upperhex ! (of_char c mod 16) \<in> set upperhex"
    by (rule upperhex_nth) simp
  assume "x \<in> set (escapeByte mode c)"
  then show ?thesis
    using hi lo by (auto simp: escapeByte_def split: if_splits)
qed

lemma escape_chars:
  "x \<in> set (escape s mode) \<Longrightarrow>
   x = CHR ''%'' \<or> x \<in> set upperhex \<or> (x \<in> set s \<and> \<not> shouldEscape x mode)
   \<or> (x = CHR ''+'' \<and> mode = encodeQueryComponent)"
  by (auto simp: escape_def dest!: escapeByte_chars)

lemma shouldEscape_host_delims:
  "shouldEscape CHR ''/'' encodeHost" "shouldEscape CHR ''?'' encodeHost"
  "shouldEscape CHR ''#'' encodeHost" "shouldEscape CHR ''@'' encodeHost"
  by (simp_all add: shouldEscape_def byte_in_def)

lemma shouldEscape_user_delims:
  "shouldEscape CHR ''/'' encodeUserPassword" "shouldEscape CHR ''?'' encodeUserPassword"
  "shouldEscape CHR ''#'' encodeUserPassword" "shouldEscape CHR ''@'' encodeUserPassword"
  "shouldEscape CHR '':'' encodeUserPassword"
  by (simp_all add: shouldEscape_def byte_in_def)

lemma delims_not_hex:
  "CHR ''/'' \<notin> set upperhex" "CHR ''?'' \<notin> set upperhex" "CHR ''#'' \<notin> set upperhex"
  "CHR ''@'' \<notin> set upperhex" "CHR '':'' \<notin> set upperhex"
  by (simp_all add: upperhex_def)

lemma escape_host_delims:
  "CHR ''/'' \<notin> set (escape s encodeHost)" "CHR ''?'' \<notin> set (escape s encodeHost)"
  "CHR ''#'' \<notin> set (escape s encodeHost)" "CHR ''@'' \<notin> set (escape s encodeHost)"
  using escape_chars [of "CHR ''/''" s encodeHost] escape_chars [of "CHR ''?''" s encodeHost]
    escape_chars [of "CHR ''#''" s encodeHost] escape_chars [of "CHR ''@''" s encodeHost]
  by (auto simp: shouldEscape_host_delims delims_not_hex)

lemma escape_user_delims:
  "CHR ''/'' \<notin> set (escape s encodeUserPassword)" "CHR ''?'' \<notin> set (escape s encodeUserPassword)"
  "CHR ''#'' \<notin> set (escape s encodeUserPassword)" "CHR ''@'' \<notin> set (escape s encodeUserPassword)"
  "CHR '':'' \<notin> set (escape s encodeUserPassword)"
  using escape_chars [of "CHR ''/''" s encodeUserPassword]
    escape_chars [of "CHR ''?''" s encodeUserPassword]
    escape_chars [of "CHR ''#''" s encodeUserPassword]
    escape_chars [of "CHR ''@''" s encodeUserPassword]
    escape_chars [of "CHR '':''" s encodeUserPassword]
  by (auto simp: shouldEscape_user_delims delims_not_hex)


lemma CTL_plain:
  assumes "(of_char b :: nat) < 32 \<or> (of_char b :: nat) = 127"
  shows "\<not> byte_in CHR ''a'' b CHR ''z''" "\<not> byte_in CHR ''A'' b CHR ''Z''"
    "\<not> byte_in CHR ''0'' b CHR ''9''"
    "b \<notin> set ''!$&'()*+,;=:[]<>\"''" "b \<notin> set ''-_.~''" "b \<notin> set ''$&+,/:;=?@''"
    "b \<notin> set ''!()*''" "b \<noteq> CHR ''%''" "b \<notin> set upperhex"
  using assms by (auto simp: byte_in_def upperhex_def)

lemma shouldEscape_CTL:
  "(of_char b :: nat) < 32 \<or> (of_char b :: nat) = 127 \<Longrightarrow> shouldEscape b mode"
  unfolding shouldEscape_def by (simp only: CTL_plain if_False simp_thms)

lemma escape_no_CTL: "\<not> stringContainsCTLByte (escape s mode)"
proof -
  have "\<not> ((of_char b :: nat) < 32 \<or> (of_char b :: nat) = 127)" if "b \<in> set (escape s mode)" for b
  proof
    assume c: "(of_char b :: nat) < 32 \<or> (of_char b :: nat) = 127"
    from escape_chars [OF that] CTL_plain(8,9) [OF c] shouldEscape_CTL [OF c, of mode]
    have "b = CHR ''+''" by blast
    with c show False by simp
  qed
  then show ?thesis
    by (auto simp: stringContainsCTLByte_def list_ex_iff)
qed

lemma escape_Nil_iff: "escape s mode = [] \<longleftrightarrow> s = []"
  by (cases s) (auto simp: escape_def escapeByte_def)

lemma getscheme_http: "getscheme (''http://'' @ e) = Inr (''http'', ''//'' @ e)"
  by (simp add: getscheme_def byte_in_def)

lemma CTL_http: "stringContainsCTLByte (''http://'' @ e) = stringContainsCTLByte e"
  by (simp add: stringContainsCTLByte_def)

lemma IndexByte_absent: "c \<notin> set s \<Longrightarrow> IndexByte s c = None"
  by (simp add: IndexByte_None)

lemma LastIndexByte_absent: "c \<notin> set s \<Longrightarrow> LastIndexByte s c = None"
  by (simp add: LastIndexByte_None)

lemma split_absent: "c \<notin> set s \<Longrightarrow> split s c cutc = (s, [])"
  by (simp add: split_def IndexByte_absent)

lemma HasSuffix_absent: "CHR ''?'' \<notin> set s \<Longrightarrow> \<not> HasSuffix s ''?''"
  by (auto simp: HasSuffix_def suffix_def)

lemma setPath_Nil: "setPath u [] = Inr (u\<lparr>Path := [], RawPath := []\<rparr>)"
  by (simp add: setPath_def escape_def)

lemma parseAuthority_no_user:
  "CHR ''@'' \<notin> set a \<Longrightarrow>
   parseAuthority a = (case parseHost a of Inl err \<Rightarrow> Inl err | Inr h \<Rightarrow> Inr (None, h))"
  by (simp add: parseAuthority_def LastIndexByte_absent split: sum.splits)

lemma parse_http:
  assumes "CHR ''/'' \<notin> set e" "CHR ''?'' \<notin> set e" "CHR ''@'' \<notin> set e"
    and "\<not> stringContainsCTLByte e"
  shows "parse (''http://'' @ e) False =
     (case parseHost e of
        Inl err \<Rightarrow> Inl err
      | Inr h \<Rightarrow> Inr (zeroURL\<lparr>Scheme := ''http'', Host := h\<rparr>))"
proof -
  have q: "CHR ''?'' \<notin> set (''//'' @ e)" using assms(2) by simp
  show ?thesis
    unfolding parse_def
    by (simp add: CTL_http [simplified] assms(4) getscheme_http [simplified] ToLower_def
        lowerByte_def
        HasSuffix_absent [OF q, simplified] split_absent [OF q, simplified]
        split_absent [OF assms(1)]
        HasPrefix_def parseAuthority_no_user [OF assms(3)] setPath_Nil zeroURL_def
        split: sum.splits)
qed

lemma Parse_http:
  assumes "CHR ''/'' \<notin> set e" "CHR ''?'' \<notin> set e" "CHR ''@'' \<notin> set e"
    "CHR ''#'' \<notin> set e" and "\<not> stringContainsCTLByte e"
  shows "Parse (''http://'' @ e) =
     (case parseHost e of
        Inl err \<Rightarrow> Inl (url_Error ''parse'' (''http://'' @ e) err)
      | Inr h \<Rightarrow> Inr (zeroURL\<lparr>Scheme := ''http'', Host := h\<rparr>))"
proof -
  have h: "CHR ''#'' \<notin> set (''http://'' @ e)" using assms(4) by simp
  show ?thesis
    unfolding Parse_def
    by (simp add: split_absent [OF h, simplified]
        parse_http [OF assms(1-3) assms(5), simplified] split: sum.splits)
qed

section \<open>Normalising twice\<close>

lemma buildAddr_http_escape:
  assumes "hp \<noteq> []" and "buildAddr (''http://'' @ escape hp encodeHost) = Inr r"
  shows "r = ''http://'' @ escape hp encodeHost"
proof -
  let ?e = "escape hp encodeHost"
  have P: "Parse (''http://'' @ ?e) =
     (case parseHost ?e of
        Inl err \<Rightarrow> Inl (url_Error ''parse'' (''http://'' @ ?e) err)
      | Inr h \<Rightarrow> Inr (zeroURL\<lparr>Scheme := ''http'', Host := h\<rparr>))"
    by (intro Parse_http escape_host_delims escape_no_CTL)
  show ?thesis
  proof (cases "parseHost ?e")
    case (Inl err)
    with assms(2) P show ?thesis
      by (simp add: buildAddr.simps [of "''http://'' @ ?e"] Contains_http del: append.simps)
  next
    case (Inr h)
    then have h: "h = hp" by (rule parseHost_escape)
    from assms(2) P Inr h assms(1) have "r = URL_String (zeroURL\<lparr>Scheme := ''http'', Host := hp\<rparr>)"
      by (simp add: buildAddr.simps [of "''http://'' @ ?e"] Contains_http zeroURL_def
          del: append.simps split: if_splits)
    with assms(1) show ?thesis by (simp add: URL_String_http)
  qed
qed

lemma buildHostPort_unfold:
  "\<exists>hp. hp \<noteq> [] \<and> buildHostPort s = buildAddr (''http://'' @ escape hp encodeHost)"
proof -
  obtain host port where hp: "(case SplitHostPort s of Inl err \<Rightarrow> (s, keylightPort) | Inr hp \<Rightarrow> hp)
      = (host, port)"
    by (cases "case SplitHostPort s of Inl err \<Rightarrow> (s, keylightPort) | Inr hp \<Rightarrow> hp")
  have "buildHostPort s =
      buildAddr (URL_String (zeroURL\<lparr>Scheme := ''http'', Host := JoinHostPort host port\<rparr>))"
    by (simp add: buildHostPort.simps [of s] hp)
  then have "buildHostPort s = buildAddr (''http://'' @ escape (JoinHostPort host port) encodeHost)"
    by (simp only: URL_String_http [OF JoinHostPort_not_Nil])
  with JoinHostPort_not_Nil show ?thesis by blast
qed

text \<open>
  Claim C7. For every target with no scheme separator that \<^verbatim>\<open>buildAddr\<close> accepts (a
  well-formed \<^verbatim>\<open>host\<close> or \<^verbatim>\<open>host:port\<close>), \<^verbatim>\<open>buildAddr\<close> applied to the string it
  returned gives that same string again.
\<close>

theorem buildAddr_idempotent:
  assumes "\<not> Contains s ''://''" and "buildAddr s = Inr r"
  shows "buildAddr r = Inr r"
proof -
  from assms(1) have "buildAddr s = buildHostPort s"
    by (simp add: buildAddr.simps [of s])
  with buildHostPort_unfold [of s] assms(2) obtain hp where
    hp: "hp \<noteq> []" "buildAddr (''http://'' @ escape hp encodeHost) = Inr r"
    by auto
  then have "r = ''http://'' @ escape hp encodeHost"
    by (rule buildAddr_http_escape)
  with hp(2) show ?thesis by simp
qed

lemma not_Contains_foo: "\<not> Contains ''foo'' ''://''"
  by (simp add: Contains_def)

theorem buildAddr_idempotent_witness:
  "\<not> Contains ''foo'' ''://'' \<and> buildAddr ''foo'' = Inr ''http://foo:9123'' \<and>
   buildAddr ''http://foo:9123'' = Inr ''http://foo:9123''"
  using buildAddr_idempotent [OF not_Contains_foo buildAddr_foo] not_Contains_foo buildAddr_foo
  by simp

section \<open>The shape of the address\<close>

lemma setPath_fields:
  "setPath u p = Inr u' \<Longrightarrow>
   Scheme u' = Scheme u \<and> Opaque u' = Opaque u \<and> User u' = User u \<and> Host u' = Host u \<and>
   ForceQuery u' = ForceQuery u \<and> RawQuery u' = RawQuery u \<and> Fragment u' = Fragment u"
  by (auto simp: setPath_def split: sum.splits)

lemma schemeScan_rest:
  "schemeScan rawurl i cs = Inr (sch, rest) \<Longrightarrow> set rest \<subseteq> set rawurl"
  by (induction cs arbitrary: i) (auto split: if_splits dest: in_set_dropD)

lemma getscheme_rest: "getscheme s = Inr (sch, rest) \<Longrightarrow> set rest \<subseteq> set s"
  unfolding getscheme_def by (rule schemeScan_rest)

lemma afterQuery_fields:
  "afterQuery scheme rest0 = (rest, url) \<Longrightarrow>
   Opaque url = [] \<and> Host url = [] \<and> Fragment url = [] \<and> User url = None \<and>
   (CHR ''?'' \<notin> set rest0 \<longrightarrow> RawQuery url = [] \<and> \<not> ForceQuery url)"
  by (auto simp: afterQuery_def Let_def zeroURL_def HasSuffix_def suffix_def split_def
      IndexByte_absent split: if_splits prod.splits option.splits)

lemma parse_afterQuery:
  "parse rawurl viaRequest =
     (if stringContainsCTLByte rawurl then Inl InvalidControlCharacter
      else if rawurl = [] \<and> viaRequest then Inl EmptyURL
      else if rawurl = ''*'' then Inr (zeroURL\<lparr>Path := ''*''\<rparr>)
      else
        (case getscheme rawurl of
           Inl err \<Rightarrow> Inl err
         | Inr (scheme, rest0) \<Rightarrow>
             (case afterQuery scheme rest0 of
                (rest, url) \<Rightarrow>
                if \<not> HasPrefix rest ''/'' \<and> Scheme url \<noteq> [] then Inr (url\<lparr>Opaque := rest\<rparr>)
                else if \<not> HasPrefix rest ''/'' \<and> viaRequest then Inl InvalidURIForRequest
                else if \<not> HasPrefix rest ''/''
                        \<and> (case IndexByte rest CHR '':'' of
                              None \<Rightarrow> False
                            | Some colon \<Rightarrow>
                                (case IndexByte rest CHR ''/'' of
                                   None \<Rightarrow> True
                                 | Some slash \<Rightarrow> colon < slash)) then
                  Inl FirstPathSegmentColon
                else if (Scheme url \<noteq> [] \<or> (\<not> viaRequest \<and> \<not> HasPrefix rest ''///''))
                        \<and> HasPrefix rest ''//'' then
                  (let (authority, rest') = split (drop 2 rest) CHR ''/'' False in
                   case parseAuthority authority of
                     Inl err \<Rightarrow> Inl err
                   | Inr (user, host) \<Rightarrow> setPath (url\<lparr>User := user, Host := host\<rparr>) rest')
                else setPath url rest)))"
  unfolding parse_def afterQuery_def Let_def
  by (simp split: sum.splits prod.splits)

lemma parse_result:
  assumes "parse s v = Inr u" and "s \<noteq> ''*''"
  obtains scheme rest0 rest url where "getscheme s = Inr (scheme, rest0)"
    and "afterQuery scheme rest0 = (rest, url)"
    and "u = url\<lparr>Opaque := rest\<rparr>
      \<or> (\<exists>user host p. setPath (url\<lparr>User := user, Host := host\<rparr>) p = Inr u)
      \<or> setPath url rest = Inr u"
proof -
  have nc: "\<not> stringContainsCTLByte s"
  proof
    assume "stringContainsCTLByte s"
    then have "parse s v = Inl InvalidControlCharacter" by (simp add: parse_afterQuery)
    with assms(1) show False by simp
  qed
  obtain scheme rest0 where g: "getscheme s = Inr (scheme, rest0)"
  proof (cases "getscheme s")
    case (Inl err)
    with nc assms(2) have "\<exists>e. parse s v = Inl e" by (simp add: parse_afterQuery)
    with assms(1) show ?thesis by auto
  next
    case (Inr p)
    with that show ?thesis by (cases p) simp
  qed
  obtain rest url where a: "afterQuery scheme rest0 = (rest, url)"
    by (cases "afterQuery scheme rest0")
  define c0 where "c0 \<longleftrightarrow> s = [] \<and> v"
  define cv where "cv \<longleftrightarrow> \<not> HasPrefix rest ''/'' \<and> v"
  define c1 where "c1 \<longleftrightarrow> \<not> HasPrefix rest ''/'' \<and> Scheme url \<noteq> []"
  define c2 where "c2 \<longleftrightarrow> \<not> HasPrefix rest ''/''
                        \<and> (case IndexByte rest CHR '':'' of
                              None \<Rightarrow> False
                            | Some colon \<Rightarrow>
                                (case IndexByte rest CHR ''/'' of
                                   None \<Rightarrow> True
                                 | Some slash \<Rightarrow> colon < slash))"
  define c3 where "c3 \<longleftrightarrow> (Scheme url \<noteq> [] \<or> (\<not> v \<and> \<not> HasPrefix rest ''///''))
                        \<and> HasPrefix rest ''//''"
  obtain authority rest' where sp: "split (drop 2 rest) CHR ''/'' False = (authority, rest')"
    by (cases "split (drop 2 rest) CHR ''/'' False")
  have eq: "parse s v =
      (if c0 then Inl EmptyURL
       else if c1 then Inr (url\<lparr>Opaque := rest\<rparr>)
       else if cv then Inl InvalidURIForRequest
       else if c2 then Inl FirstPathSegmentColon
       else if c3 then
         (case parseAuthority authority of
            Inl err \<Rightarrow> Inl err
          | Inr (user, host) \<Rightarrow> setPath (url\<lparr>User := user, Host := host\<rparr>) rest')
       else setPath url rest)"
    unfolding c0_def cv_def c1_def c2_def c3_def
    by (simp add: parse_afterQuery nc assms(2) g a sp)
  have ne: "\<not> c0"
  proof
    assume c0
    with eq have "parse s v = Inl EmptyURL" by simp
    with assms(1) show False by simp
  qed
  show ?thesis
  proof (cases c1)
    case True
    with eq ne assms(1) have "u = url\<lparr>Opaque := rest\<rparr>" by simp
    with that [OF g a] show ?thesis by simp
  next
    case n1: False
    have nv: "\<not> cv"
    proof
      assume cv
      with eq ne n1 have "parse s v = Inl InvalidURIForRequest" by simp
      with assms(1) show False by simp
    qed
    show ?thesis
    proof (cases c2)
      case True
      with n1 nv ne eq assms(1) show ?thesis by simp
    next
      case n2: False
      show ?thesis
      proof (cases c3)
        case False
        with n1 n2 nv ne eq assms(1) have "setPath url rest = Inr u" by simp
        with that [OF g a] show ?thesis by simp
      next
        case True
        show ?thesis
        proof (cases "parseAuthority authority")
          case (Inl err)
          with True n1 n2 nv ne eq assms(1) show ?thesis by simp
        next
          case (Inr p)
          obtain user host where p: "p = (user, host)" by (cases p)
          with Inr True n1 n2 nv ne eq assms(1)
          have "setPath (url\<lparr>User := user, Host := host\<rparr>) rest' = Inr u" by simp
          with that [OF g a] show ?thesis by blast
        qed
      qed
    qed
  qed
qed

lemma parse_star: "parse ''*'' v = Inr (zeroURL\<lparr>Path := ''*''\<rparr>)"
  by (simp add: parse_def stringContainsCTLByte_def)

lemma parse_fields:
  assumes "parse s v = Inr u"
  shows "Fragment u = [] \<and> (Host u \<noteq> [] \<longrightarrow> Opaque u = []) \<and>
     (CHR ''?'' \<notin> set s \<longrightarrow> RawQuery u = [] \<and> \<not> ForceQuery u)"
proof (cases "s = ''*''")
  case True
  then have "parse s v = Inr (zeroURL\<lparr>Path := ''*''\<rparr>)"
    by (simp only: parse_star)
  with assms have "u = zeroURL\<lparr>Path := ''*''\<rparr>" by simp
  then show ?thesis
    by (simp add: zeroURL_def)
next
  case False
  from assms False obtain scheme rest0 rest url where g: "getscheme s = Inr (scheme, rest0)"
    and a: "afterQuery scheme rest0 = (rest, url)"
    and r: "u = url\<lparr>Opaque := rest\<rparr>
      \<or> (\<exists>user host p. setPath (url\<lparr>User := user, Host := host\<rparr>) p = Inr u)
      \<or> setPath url rest = Inr u"
    by (rule parse_result)
  note f = afterQuery_fields [OF a]
  from getscheme_rest [OF g] have sub: "CHR ''?'' \<notin> set s \<longrightarrow> CHR ''?'' \<notin> set rest0"
    by auto
  from r consider (opaque) "u = url\<lparr>Opaque := rest\<rparr>"
    | (auth) user host p where "setPath (url\<lparr>User := user, Host := host\<rparr>) p = Inr u"
    | (path) "setPath url rest = Inr u"
    by blast
  then show ?thesis
  proof cases
    case opaque
    with f sub show ?thesis by simp
  next
    case auth
    from setPath_fields [OF auth] f sub show ?thesis by simp
  next
    case path
    from setPath_fields [OF path] f sub show ?thesis by simp
  qed
qed


lemma split_fst_subset: "split s c cutc = (a, b) \<Longrightarrow> set a \<subseteq> set s"
  by (auto simp: split_def split: option.splits if_splits dest: in_set_takeD)

lemma Parse_fields:
  assumes "Parse s = Inr u"
  shows "(Host u \<noteq> [] \<longrightarrow> Opaque u = []) \<and> (CHR ''#'' \<notin> set s \<longrightarrow> Fragment u = []) \<and>
     (CHR ''?'' \<notin> set s \<longrightarrow> RawQuery u = [] \<and> \<not> ForceQuery u)"
proof -
  obtain a frag where sp: "split s CHR ''#'' True = (a, frag)"
    by (cases "split s CHR ''#'' True")
  have eq: "Parse s =
      (case parse a False of
         Inl err \<Rightarrow> Inl (url_Error ''parse'' a err)
       | Inr url \<Rightarrow>
           if frag = [] then Inr url
           else
             (case unescape frag encodeFragment of
                Inl err \<Rightarrow> Inl (url_Error ''parse'' s err)
              | Inr f \<Rightarrow> Inr (url\<lparr>Fragment := f\<rparr>)))"
    by (simp add: Parse_def sp)
  from split_fst_subset [OF sp] have q: "CHR ''?'' \<notin> set s \<longrightarrow> CHR ''?'' \<notin> set a"
    by auto
  from sp have fr: "CHR ''#'' \<notin> set s \<longrightarrow> frag = []"
    by (auto simp: split_absent)
  show ?thesis
  proof (cases "parse a False")
    case (Inl err)
    with eq assms show ?thesis by simp
  next
    case (Inr url)
    note f = parse_fields [OF Inr]
    show ?thesis
    proof (cases "frag = []")
      case True
      with eq Inr assms have "u = url" by simp
      with f q show ?thesis by simp
    next
      case False
      with eq Inr assms obtain g where "u = url\<lparr>Fragment := g\<rparr>"
        by (cases "unescape frag encodeFragment") simp_all
      with f q fr False show ?thesis by simp
    qed
  qed
qed

lemma EscapedPath_Nil: "Path u = [] \<Longrightarrow> EscapedPath u = []"
  by (auto simp: EscapedPath_def escape_def dest: unescape_Nil)

lemma URL_String_endpoint:
  assumes "Scheme u \<noteq> []" "Host u \<noteq> []" "Opaque u = []" "Path u = []"
  shows "URL_String u = Scheme u @ ''://'' @ userPart u @ escape (Host u) encodeHost @ tailPart u"
  using assms
  by (simp add: URL_String_def EscapedPath_Nil userPart_def tailPart_def escape_Nil_iff
      split: option.splits)

lemma userPart_chars:
  "CHR ''/'' \<notin> set (userPart u)" "CHR ''?'' \<notin> set (userPart u)" "CHR ''#'' \<notin> set (userPart u)"
  "userPart u = [] \<or> last (userPart u) = CHR ''@''"
  by (auto simp: userPart_def Userinfo_String_def escape_user_delims split: option.splits)

lemma tailPart_hd:
  "tailPart u = [] \<or> hd (tailPart u) = CHR ''?'' \<or> hd (tailPart u) = CHR ''#''"
  by (simp add: tailPart_def)

lemma tailPart_Nil:
  "RawQuery u = [] \<Longrightarrow> \<not> ForceQuery u \<Longrightarrow> Fragment u = [] \<Longrightarrow> tailPart u = []"
  by (simp add: tailPart_def)

lemma buildAddr_scheme_endpoint:
  assumes "Contains s ''://''" and "buildAddr s = Inr r"
  shows "\<exists>u. r = Scheme u @ ''://'' @ userPart u @ escape (Host u) encodeHost @ tailPart u \<and>
     (Scheme u = ''http'' \<or> Scheme u = ''https'') \<and> Host u \<noteq> [] \<and>
     (CHR ''?'' \<notin> set s \<and> CHR ''#'' \<notin> set s \<longrightarrow> tailPart u = [])"
proof -
  from assms obtain u0 where p: "Parse s = Inr u0"
    by (cases "Parse s") (simp_all add: buildAddr.simps [of s])
  define u where "u = (if Path u0 = ''/'' then u0\<lparr>Path := []\<rparr> else u0)"
  from assms p have ok: "(Scheme u = ''http'' \<or> Scheme u = ''https'')" "Host u \<noteq> []" "Path u = []"
    and r: "r = URL_String u"
    by (auto simp: buildAddr.simps [of s] u_def Let_def split: if_splits)
  have same: "Host u = Host u0" "Opaque u = Opaque u0" "Fragment u = Fragment u0"
    "RawQuery u = RawQuery u0" "ForceQuery u = ForceQuery u0"
    by (simp_all add: u_def)
  note f = Parse_fields [OF p]
  from f ok(2) same have op: "Opaque u = []" by simp
  from ok(1) have sch: "Scheme u \<noteq> []" by auto
  have "r = Scheme u @ ''://'' @ userPart u @ escape (Host u) encodeHost @ tailPart u"
    unfolding r by (rule URL_String_endpoint [OF sch ok(2) op ok(3)])
  moreover have "CHR ''?'' \<notin> set s \<and> CHR ''#'' \<notin> set s \<longrightarrow> tailPart u = []"
    using f same by (auto intro!: tailPart_Nil)
  ultimately show ?thesis using ok by blast
qed

text \<open>
  Claim C1, as amended. For every input that \<^verbatim>\<open>buildAddr\<close> accepts, the returned string
  is a scheme \<^verbatim>\<open>http\<close> or \<^verbatim>\<open>https\<close>, the separator \<^verbatim>\<open>://\<close>, an optional user part ending
  in \<^verbatim>\<open>@\<close>, a non-empty part for host and port (the field \<^verbatim>\<open>Host\<close> of the URL, which
  the code tests), and a rest that is empty or starts with \<^verbatim>\<open>?\<close> or \<^verbatim>\<open>#\<close>: there is no
  path. User part, host and port have no \<^verbatim>\<open>/\<close>, \<^verbatim>\<open>?\<close> or \<^verbatim>\<open>#\<close>. The rest (query and
  fragment) is empty when the input has neither \<^verbatim>\<open>?\<close> nor \<^verbatim>\<open>#\<close>.
\<close>

theorem buildAddr_endpoint:
  assumes "buildAddr s = Inr r"
  shows "\<exists>scheme user hostport rest.
     r = scheme @ ''://'' @ user @ hostport @ rest \<and>
     (scheme = ''http'' \<or> scheme = ''https'') \<and>
     hostport \<noteq> [] \<and>
     CHR ''/'' \<notin> set (user @ hostport) \<and> CHR ''?'' \<notin> set (user @ hostport) \<and>
     CHR ''#'' \<notin> set (user @ hostport) \<and> CHR ''@'' \<notin> set hostport \<and>
     (user = [] \<or> last user = CHR ''@'') \<and>
     (rest = [] \<or> hd rest = CHR ''?'' \<or> hd rest = CHR ''#'') \<and>
     (CHR ''?'' \<notin> set s \<and> CHR ''#'' \<notin> set s \<longrightarrow> rest = [])"
proof -
  have shape: "\<exists>u. r = Scheme u @ ''://'' @ userPart u @ escape (Host u) encodeHost @ tailPart u \<and>
     (Scheme u = ''http'' \<or> Scheme u = ''https'') \<and> Host u \<noteq> [] \<and>
     (CHR ''?'' \<notin> set s \<and> CHR ''#'' \<notin> set s \<longrightarrow> tailPart u = [])"
  proof (cases "Contains s ''://''")
    case True
    then show ?thesis using assms by (rule buildAddr_scheme_endpoint)
  next
    case False
    then have "buildAddr s = buildHostPort s"
      by (simp add: buildAddr.simps [of s])
    with buildHostPort_unfold [of s] assms obtain hp where
      hp: "hp \<noteq> []" "buildAddr (''http://'' @ escape hp encodeHost) = Inr r"
      by auto
    then have "r = ''http://'' @ escape hp encodeHost"
      by (rule buildAddr_http_escape)
    then have "r = Scheme (zeroURL\<lparr>Scheme := ''http'', Host := hp\<rparr>) @ ''://''
        @ userPart (zeroURL\<lparr>Scheme := ''http'', Host := hp\<rparr>)
        @ escape (Host (zeroURL\<lparr>Scheme := ''http'', Host := hp\<rparr>)) encodeHost
        @ tailPart (zeroURL\<lparr>Scheme := ''http'', Host := hp\<rparr>)"
      by (simp add: zeroURL_def userPart_def tailPart_def)
    moreover have "tailPart (zeroURL\<lparr>Scheme := ''http'', Host := hp\<rparr>) = []"
      by (simp add: zeroURL_def tailPart_def)
    ultimately show ?thesis
      using hp(1) by (intro exI [of _ "zeroURL\<lparr>Scheme := ''http'', Host := hp\<rparr>"]) simp
  qed
  then obtain u where u: "r = Scheme u @ ''://'' @ userPart u @ escape (Host u) encodeHost @ tailPart u"
    "Scheme u = ''http'' \<or> Scheme u = ''https''" "Host u \<noteq> []"
    "CHR ''?'' \<notin> set s \<and> CHR ''#'' \<notin> set s \<longrightarrow> tailPart u = []"
    by blast
  have "escape (Host u) encodeHost \<noteq> []"
    using u(3) by (simp add: escape_Nil_iff)
  with u userPart_chars [of u] tailPart_hd [of u] escape_host_delims [of "Host u"]
  show ?thesis
    by (intro exI [of _ "Scheme u"] exI [of _ "userPart u"]
        exI [of _ "escape (Host u) encodeHost"] exI [of _ "tailPart u"]) simp
qed

lemma buildAddr_query: "buildAddr ''http://foo?x=1'' = Inr ''http://foo?x=1''"
  by code_simp

lemma Parse_query:
  "Parse ''http://foo?x=1'' = Inr (zeroURL\<lparr>Scheme := ''http'', Host := ''foo'', RawQuery := ''x=1''\<rparr>)"
  by code_simp

lemma buildAddr_fragment: "buildAddr ''http://foo#top'' = Inr ''http://foo#top''"
  by code_simp

lemma buildAddr_port_only: "buildAddr '':80'' = Inr ''http://:80''"
  by code_simp

lemma Parse_port_only:
  "Parse ''http://:80'' = Inr (zeroURL\<lparr>Scheme := ''http'', Host := '':80''\<rparr>)"
  by code_simp

lemma Parse_fragment:
  "Parse ''http://foo#top'' = Inr (zeroURL\<lparr>Scheme := ''http'', Host := ''foo'', Fragment := ''top''\<rparr>)"
  by code_simp

text \<open>
  Claim C1 as stated does not hold: \<^verbatim>\<open>buildAddr\<close> checks the scheme, the field \<^verbatim>\<open>Host\<close>
  and the path only. The target \<^verbatim>\<open>http://foo?x=1\<close> is accepted and returned with its
  query, and the target \<^verbatim>\<open>http://foo#top\<close> with its fragment; and since \<^verbatim>\<open>Host\<close> holds
  host and port, the target \<^verbatim>\<open>:80\<close>, a port with no host name, passes the test of the
  host.
\<close>

theorem buildAddr_query_fragment_counterexample:
  "buildAddr ''http://foo?x=1'' = Inr ''http://foo?x=1'' \<and>
   Parse ''http://foo?x=1'' =
     Inr (zeroURL\<lparr>Scheme := ''http'', Host := ''foo'', RawQuery := ''x=1''\<rparr>) \<and>
   buildAddr ''http://foo#top'' = Inr ''http://foo#top'' \<and>
   Parse ''http://foo#top'' =
     Inr (zeroURL\<lparr>Scheme := ''http'', Host := ''foo'', Fragment := ''top''\<rparr>) \<and>
   buildAddr '':80'' = Inr ''http://:80'' \<and>
   Parse ''http://:80'' = Inr (zeroURL\<lparr>Scheme := ''http'', Host := '':80''\<rparr>)"
  by (simp only: buildAddr_query Parse_query buildAddr_fragment Parse_fragment
      buildAddr_port_only Parse_port_only simp_thms)

theorem buildAddr_endpoint_witness:
  "buildAddr ''http://foo:9123/'' = Inr ''http://foo:9123'' \<and>
   (\<exists>scheme user hostport rest.
      ''http://foo:9123'' = scheme @ ''://'' @ user @ hostport @ rest \<and>
      (scheme = ''http'' \<or> scheme = ''https'') \<and> hostport \<noteq> [] \<and>
      CHR ''/'' \<notin> set (user @ hostport) \<and> rest = [])"
proof -
  have q: "CHR ''?'' \<notin> set ''http://foo:9123/'' \<and> CHR ''#'' \<notin> set ''http://foo:9123/''"
    by simp
  from buildAddr_endpoint [OF buildAddr_http_slash] obtain scheme user host rest where
    "''http://foo:9123'' = scheme @ ''://'' @ user @ host @ rest"
    "scheme = ''http'' \<or> scheme = ''https''" "host \<noteq> []"
    "CHR ''/'' \<notin> set (user @ host)"
    "CHR ''?'' \<notin> set ''http://foo:9123/'' \<and> CHR ''#'' \<notin> set ''http://foo:9123/'' \<longrightarrow> rest = []"
    by blast
  with q have "''http://foo:9123'' = scheme @ ''://'' @ user @ host @ rest \<and>
      (scheme = ''http'' \<or> scheme = ''https'') \<and> host \<noteq> [] \<and>
      CHR ''/'' \<notin> set (user @ host) \<and> rest = []"
    by blast
  then show ?thesis
    using buildAddr_http_slash by blast
qed

section \<open>Properties of the HTTP handler\<close>

lemma ServeHTTP_missing:
  assumes "Get (Query r) ''target'' = []"
  shows "written (ServeHTTP fm h keys r start) =
       Some \<lparr>StatusCode = 400, Body = ''missing target parameter'' @ [CHR 0x0A]\<rparr>"
    and "events (ServeHTTP fm h keys r start) = [EvHttpError 400, EvCancel]"
  using assms
  by (simp_all add: ServeHTTP_def cancel_def http_Error_def emit_def start_def
      StatusBadRequest_def)

lemma ServeHTTP_malformed:
  assumes "Get (Query r) ''target'' \<noteq> []" and "buildAddr (Get (Query r) ''target'') = Inl err"
  shows "written (ServeHTTP fm h keys r start) =
       Some \<lparr>StatusCode = 400,
             Body = ''malformed target parameter: '' @ verb_v fm err @ [CHR 0x0A]\<rparr>"
    and "events (ServeHTTP fm h keys r start) = [EvHttpError 400, EvCancel]"
  using assms
  by (simp_all add: ServeHTTP_def cancel_def http_Error_def emit_def start_def
      StatusBadRequest_def)

lemma ServeHTTP_fetch_failed:
  assumes "Get (Query r) ''target'' \<noteq> []" and "buildAddr (Get (Query r) ''target'') = Inr addr"
    and "Fetch h addr = Inl err"
  shows "written (ServeHTTP fm h keys r start) =
       Some \<lparr>StatusCode = 500,
             Body = ''failed to fetch Key Light data from '' @ verb_q fm addr @ '': ''
                    @ verb_v_fetch fm err @ [CHR 0x0A]\<rparr>"
    and "events (ServeHTTP fm h keys r start) = [EvFetch addr, EvHttpError 500, EvCancel]"
  using assms
  by (simp_all add: ServeHTTP_def cancel_def http_Error_def emit_def start_def
      StatusInternalServerError_def)

lemma scrapeDevice_registered:
  "set keys \<subseteq> set registered \<Longrightarrow> scrapeDevice d keys = Inr (concat (map (emitted d) keys))"
  by (simp add: scrapeDevice_def scrapeMetrics_registered)

lemma ServeHTTP_ok:
  assumes "Get (Query r) ''target'' \<noteq> []" and "buildAddr (Get (Query r) ''target'') = Inr addr"
    and "Fetch h addr = Inr d" and "set keys \<subseteq> set registered"
  shows "written (ServeHTTP fm h keys r start) =
       Some \<lparr>StatusCode = 200, Body = encode h (concat (map (emitted d) keys))\<rparr>"
    and "events (ServeHTTP fm h keys r start) =
       [EvFetch addr, EvLock, EvOnConstScrape, EvMetricsServeHTTP, EvUnlock, EvCancel]"
    and "installed (ServeHTTP fm h keys r start) = Some (scrapeDevice d)"
    and "\<not> locked (ServeHTTP fm h keys r start)"
    and "panicked (ServeHTTP fm h keys r start) = None"
  using assms(1-3) scrapeDevice_registered [OF assms(4), of d]
  by (simp_all add: ServeHTTP_def cancel_def emit_def start_def mu_Lock_def mu_Unlock_def
      OnConstScrape_def metrics_ServeHTTP_def StatusOK_def)

text \<open>
  Without the wiring of the gauges: in the last branch the events are the same,
  whatever the scrape function does with the keys.
\<close>

lemma ServeHTTP_ok_events:
  assumes "Get (Query r) ''target'' \<noteq> []" and "buildAddr (Get (Query r) ''target'') = Inr addr"
    and "Fetch h addr = Inr d"
  shows "events (ServeHTTP fm h keys r start) =
       [EvFetch addr, EvLock, EvOnConstScrape, EvMetricsServeHTTP, EvUnlock, EvCancel]"
    and "installed (ServeHTTP fm h keys r start) = Some (scrapeDevice d)"
  using assms
  by (simp_all add: ServeHTTP_def cancel_def emit_def start_def mu_Lock_def mu_Unlock_def
      OnConstScrape_def metrics_ServeHTTP_def Let_def split: sum.split)

text \<open>The end of \<^verbatim>\<open>ServeHTTP\<close> is the four steps of the section, in their order.\<close>

lemma ServeHTTP_section:
  assumes "Get (Query r) ''target'' \<noteq> []" and "buildAddr (Get (Query r) ''target'') = Inr addr"
    and "Fetch h addr = Inr d"
  shows "ServeHTTP fm h keys r w =
     cancel (section_step h keys d 3 (section_step h keys d 2 (section_step h keys d 1
       (section_step h keys d 0 (emit (EvFetch addr) w)))))"
  using assms by (simp add: ServeHTTP_def section_step_def)

lemma Get_absent: "Query r ''target'' = None \<Longrightarrow> Get (Query r) ''target'' = []"
  by (simp add: Get_def)

lemma sublist_mid: "sublist x (p @ x @ q)"
  by (auto simp: sublist_def)

lemma sublist_mid2: "sublist x (p @ y @ z @ x @ q)"
  using sublist_mid [of x "p @ y @ z" q] by simp

lemma ServeHTTP_cases:
  "Get (Query r) ''target'' = [] \<or>
   (\<exists>err. Get (Query r) ''target'' \<noteq> [] \<and> buildAddr (Get (Query r) ''target'') = Inl err) \<or>
   (\<exists>addr err. Get (Query r) ''target'' \<noteq> [] \<and>
      buildAddr (Get (Query r) ''target'') = Inr addr \<and> Fetch h addr = Inl err) \<or>
   (\<exists>addr d. Get (Query r) ''target'' \<noteq> [] \<and>
      buildAddr (Get (Query r) ''target'') = Inr addr \<and> Fetch h addr = Inr d)"
  by (cases "buildAddr (Get (Query r) ''target'')";
      cases "Fetch h (projr (buildAddr (Get (Query r) ''target'')))") auto

text \<open>
  Claim C2. Every call of \<^verbatim>\<open>ServeHTTP\<close> ends in the first branch that applies. With no
  \<^verbatim>\<open>target\<close> parameter the value read is empty, and with an empty value the response
  has status 400 and the body \<^verbatim>\<open>missing target parameter\<close>; with a target that
  \<^verbatim>\<open>buildAddr\<close> rejects it has status 400 and a body that contains the text of the error;
  when the fetch fails it has status 500 and a body that contains the address (as \<^verbatim>\<open>%q\<close>
  prints it) and the text of the fetch error; otherwise the scrape of the fetched data
  returns its observations without a panic and the response has status 200 and their
  encoding as its body. The events show that no later step runs in an earlier branch.
  One of the four branches applies to every request, and every request is answered
  with one of the three status codes. The gauges gathered are the four registered
  ones, in any order.
\<close>

theorem ServeHTTP_responses:
  assumes "set keys = set registered"
  shows
  "(Query r ''target'' = None \<longrightarrow> Get (Query r) ''target'' = []) \<and>
   (Get (Query r) ''target'' = [] \<longrightarrow>
      written (ServeHTTP fm h keys r start) =
        Some \<lparr>StatusCode = 400, Body = ''missing target parameter'' @ [CHR 0x0A]\<rparr> \<and>
      events (ServeHTTP fm h keys r start) = [EvHttpError 400, EvCancel]) \<and>
   (\<forall>err. Get (Query r) ''target'' \<noteq> [] \<and> buildAddr (Get (Query r) ''target'') = Inl err \<longrightarrow>
      (\<exists>b. written (ServeHTTP fm h keys r start) = Some \<lparr>StatusCode = 400, Body = b\<rparr> \<and>
           sublist (verb_v fm err) b) \<and>
      events (ServeHTTP fm h keys r start) = [EvHttpError 400, EvCancel]) \<and>
   (\<forall>addr err. Get (Query r) ''target'' \<noteq> [] \<and> buildAddr (Get (Query r) ''target'') = Inr addr \<and>
        Fetch h addr = Inl err \<longrightarrow>
      (\<exists>b. written (ServeHTTP fm h keys r start) = Some \<lparr>StatusCode = 500, Body = b\<rparr> \<and>
           sublist (verb_q fm addr) b \<and> sublist (verb_v_fetch fm err) b) \<and>
      events (ServeHTTP fm h keys r start) = [EvFetch addr, EvHttpError 500, EvCancel]) \<and>
   (\<forall>addr d. Get (Query r) ''target'' \<noteq> [] \<and> buildAddr (Get (Query r) ''target'') = Inr addr \<and>
        Fetch h addr = Inr d \<longrightarrow>
      (\<exists>obs. scrapeDevice d keys = Inr obs \<and>
           written (ServeHTTP fm h keys r start) =
             Some \<lparr>StatusCode = 200, Body = encode h obs\<rparr>) \<and>
      panicked (ServeHTTP fm h keys r start) = None \<and>
      events (ServeHTTP fm h keys r start) =
        [EvFetch addr, EvLock, EvOnConstScrape, EvMetricsServeHTTP, EvUnlock, EvCancel]) \<and>
   (Get (Query r) ''target'' = [] \<or>
    (\<exists>err. Get (Query r) ''target'' \<noteq> [] \<and> buildAddr (Get (Query r) ''target'') = Inl err) \<or>
    (\<exists>addr err. Get (Query r) ''target'' \<noteq> [] \<and>
       buildAddr (Get (Query r) ''target'') = Inr addr \<and> Fetch h addr = Inl err) \<or>
    (\<exists>addr d. Get (Query r) ''target'' \<noteq> [] \<and>
       buildAddr (Get (Query r) ''target'') = Inr addr \<and> Fetch h addr = Inr d)) \<and>
   (\<exists>resp. written (ServeHTTP fm h keys r start) = Some resp \<and>
      (StatusCode resp = 200 \<or> StatusCode resp = 400 \<or> StatusCode resp = 500))"
proof -
  from assms have sub: "set keys \<subseteq> set registered" by simp
  let ?W = "ServeHTTP fm h keys r start"
  let ?t = "Get (Query r) ''target''"
  have c1: "Query r ''target'' = None \<longrightarrow> ?t = []"
    by (simp add: Get_absent)
  have c2: "?t = [] \<longrightarrow>
      written ?W = Some \<lparr>StatusCode = 400, Body = ''missing target parameter'' @ [CHR 0x0A]\<rparr> \<and>
      events ?W = [EvHttpError 400, EvCancel]"
    by (simp add: ServeHTTP_missing)
  have c3: "\<forall>err. ?t \<noteq> [] \<and> buildAddr ?t = Inl err \<longrightarrow>
      (\<exists>b. written ?W = Some \<lparr>StatusCode = 400, Body = b\<rparr> \<and> sublist (verb_v fm err) b) \<and>
      events ?W = [EvHttpError 400, EvCancel]"
  proof (intro allI impI)
    fix err
    assume "?t \<noteq> [] \<and> buildAddr ?t = Inl err"
    then have b: "?t \<noteq> []" "buildAddr ?t = Inl err" by simp_all
    show "(\<exists>b. written ?W = Some \<lparr>StatusCode = 400, Body = b\<rparr> \<and> sublist (verb_v fm err) b) \<and>
      events ?W = [EvHttpError 400, EvCancel]"
      using sublist_mid [of "verb_v fm err" "''malformed target parameter: ''"]
      by (simp add: ServeHTTP_malformed [OF b])
  qed
  have c4: "\<forall>addr err. ?t \<noteq> [] \<and> buildAddr ?t = Inr addr \<and> Fetch h addr = Inl err \<longrightarrow>
      (\<exists>b. written ?W = Some \<lparr>StatusCode = 500, Body = b\<rparr> \<and>
           sublist (verb_q fm addr) b \<and> sublist (verb_v_fetch fm err) b) \<and>
      events ?W = [EvFetch addr, EvHttpError 500, EvCancel]"
  proof (intro allI impI)
    fix addr err
    assume "?t \<noteq> [] \<and> buildAddr ?t = Inr addr \<and> Fetch h addr = Inl err"
    then have b: "?t \<noteq> []" "buildAddr ?t = Inr addr" "Fetch h addr = Inl err" by simp_all
    show "(\<exists>b. written ?W = Some \<lparr>StatusCode = 500, Body = b\<rparr> \<and>
           sublist (verb_q fm addr) b \<and> sublist (verb_v_fetch fm err) b) \<and>
      events ?W = [EvFetch addr, EvHttpError 500, EvCancel]"
      using sublist_mid [of "verb_q fm addr" "''failed to fetch Key Light data from ''"]
        sublist_mid2 [of "verb_v_fetch fm err" "''failed to fetch Key Light data from ''"
          "verb_q fm addr" "'': ''"]
      by (simp add: ServeHTTP_fetch_failed [OF b])
  qed
  have c5: "\<forall>addr d. ?t \<noteq> [] \<and> buildAddr ?t = Inr addr \<and> Fetch h addr = Inr d \<longrightarrow>
      (\<exists>obs. scrapeDevice d keys = Inr obs \<and>
           written ?W = Some \<lparr>StatusCode = 200, Body = encode h obs\<rparr>) \<and>
      panicked ?W = None \<and>
      events ?W = [EvFetch addr, EvLock, EvOnConstScrape, EvMetricsServeHTTP, EvUnlock, EvCancel]"
  proof (intro allI impI)
    fix addr d
    assume "?t \<noteq> [] \<and> buildAddr ?t = Inr addr \<and> Fetch h addr = Inr d"
    then have b: "?t \<noteq> []" "buildAddr ?t = Inr addr" "Fetch h addr = Inr d" by simp_all
    show "(\<exists>obs. scrapeDevice d keys = Inr obs \<and>
           written ?W = Some \<lparr>StatusCode = 200, Body = encode h obs\<rparr>) \<and>
      panicked ?W = None \<and>
      events ?W = [EvFetch addr, EvLock, EvOnConstScrape, EvMetricsServeHTTP, EvUnlock, EvCancel]"
      by (simp add: ServeHTTP_ok [OF b sub] scrapeDevice_registered [OF sub])
  qed
  note c6 = ServeHTTP_cases [of r h]
  have c7: "\<exists>resp. written ?W = Some resp \<and>
      (StatusCode resp = 200 \<or> StatusCode resp = 400 \<or> StatusCode resp = 500)"
    using c6
  proof (elim disjE exE conjE)
    assume "?t = []"
    then show ?thesis by (simp add: ServeHTTP_missing)
  next
    fix err assume "?t \<noteq> []" "buildAddr ?t = Inl err"
    then show ?thesis by (simp add: ServeHTTP_malformed)
  next
    fix addr err assume "?t \<noteq> []" "buildAddr ?t = Inr addr" "Fetch h addr = Inl err"
    then show ?thesis by (simp add: ServeHTTP_fetch_failed)
  next
    fix addr d assume "?t \<noteq> []" "buildAddr ?t = Inr addr" "Fetch h addr = Inr d"
    then show ?thesis by (simp add: ServeHTTP_ok [OF _ _ _ sub])
  qed
  from c1 c2 c3 c4 c5 c6 c7 show ?thesis by (intro conjI)
qed

theorem ServeHTTP_responses_witness:
  "written (ServeHTTP test_formatting test_handler (rev registered) \<lparr>Query = Map.empty\<rparr> start) =
     Some \<lparr>StatusCode = 400, Body = ''missing target parameter'' @ [CHR 0x0A]\<rparr> \<and>
   written (ServeHTTP test_formatting test_handler (rev registered)
              \<lparr>Query = [''target'' \<mapsto> []]\<rparr> start) =
     Some \<lparr>StatusCode = 400, Body = ''missing target parameter'' @ [CHR 0x0A]\<rparr> \<and>
   (\<exists>b. written (ServeHTTP test_formatting test_handler (rev registered)
              \<lparr>Query = [''target'' \<mapsto> [''foo:bar'']]\<rparr> start) =
        Some \<lparr>StatusCode = 400, Body = b\<rparr> \<and> sublist ''invalid target'' b) \<and>
   (\<exists>b. written (ServeHTTP test_formatting test_handler (rev registered)
              \<lparr>Query = [''target'' \<mapsto> [''bar'']]\<rparr> start) =
        Some \<lparr>StatusCode = 500, Body = b\<rparr> \<and>
        sublist ([CHR 0x22] @ ''http://bar:9123'' @ [CHR 0x22]) b \<and> sublist ''no route'' b) \<and>
   (\<exists>obs. scrapeDevice test_data (rev registered) = Inr obs \<and>
      written (ServeHTTP test_formatting test_handler (rev registered)
                 \<lparr>Query = [''target'' \<mapsto> [''foo'']]\<rparr> start) =
        Some \<lparr>StatusCode = 200, Body = encode test_handler obs\<rparr>)"
proof (intro conjI)
  have k: "set (rev registered) = set registered" by simp
  note th = ServeHTTP_responses [OF k, of _ test_formatting test_handler]
  show "written (ServeHTTP test_formatting test_handler (rev registered)
          \<lparr>Query = Map.empty\<rparr> start) =
     Some \<lparr>StatusCode = 400, Body = ''missing target parameter'' @ [CHR 0x0A]\<rparr>"
    using th [of "\<lparr>Query = Map.empty\<rparr>"] by simp
  have "Get (Query \<lparr>Query = [''target'' \<mapsto> []]\<rparr>) ''target'' = []"
    by (simp add: Get_def)
  with th [of "\<lparr>Query = [''target'' \<mapsto> []]\<rparr>"]
  show "written (ServeHTTP test_formatting test_handler (rev registered)
              \<lparr>Query = [''target'' \<mapsto> []]\<rparr> start) =
     Some \<lparr>StatusCode = 400, Body = ''missing target parameter'' @ [CHR 0x0A]\<rparr>"
    by blast
  have "Get (Query \<lparr>Query = [''target'' \<mapsto> [''foo:bar'']]\<rparr>) ''target'' \<noteq> [] \<and>
      buildAddr (Get (Query \<lparr>Query = [''target'' \<mapsto> [''foo:bar'']]\<rparr>) ''target'') =
        Inl (ParseError (url_Error ''parse'' ''http://foo:bar'' (InvalidPort '':bar'')))"
    by (simp add: Get_def buildAddr_foo_bar)
  with th [of "\<lparr>Query = [''target'' \<mapsto> [''foo:bar'']]\<rparr>"]
  have "\<exists>b. written (ServeHTTP test_formatting test_handler (rev registered)
              \<lparr>Query = [''target'' \<mapsto> [''foo:bar'']]\<rparr> start) =
        Some \<lparr>StatusCode = 400, Body = b\<rparr> \<and>
        sublist (verb_v test_formatting
          (ParseError (url_Error ''parse'' ''http://foo:bar'' (InvalidPort '':bar'')))) b"
    by blast
  then show "\<exists>b. written (ServeHTTP test_formatting test_handler (rev registered)
              \<lparr>Query = [''target'' \<mapsto> [''foo:bar'']]\<rparr> start) =
        Some \<lparr>StatusCode = 400, Body = b\<rparr> \<and> sublist ''invalid target'' b"
    by (simp add: test_formatting_def)
  have "Get (Query \<lparr>Query = [''target'' \<mapsto> [''bar'']]\<rparr>) ''target'' \<noteq> [] \<and>
      buildAddr (Get (Query \<lparr>Query = [''target'' \<mapsto> [''bar'']]\<rparr>) ''target'') =
        Inr ''http://bar:9123'' \<and>
      Fetch test_handler ''http://bar:9123'' = Inl ''no route''"
    by (simp add: Get_def buildAddr_bar test_handler_def)
  with th [of "\<lparr>Query = [''target'' \<mapsto> [''bar'']]\<rparr>"]
  have "\<exists>b. written (ServeHTTP test_formatting test_handler (rev registered)
              \<lparr>Query = [''target'' \<mapsto> [''bar'']]\<rparr> start) =
        Some \<lparr>StatusCode = 500, Body = b\<rparr> \<and>
        sublist (verb_q test_formatting ''http://bar:9123'') b \<and>
        sublist (verb_v_fetch test_formatting ''no route'') b"
    by blast
  then show "\<exists>b. written (ServeHTTP test_formatting test_handler (rev registered)
              \<lparr>Query = [''target'' \<mapsto> [''bar'']]\<rparr> start) =
        Some \<lparr>StatusCode = 500, Body = b\<rparr> \<and>
        sublist ([CHR 0x22] @ ''http://bar:9123'' @ [CHR 0x22]) b \<and> sublist ''no route'' b"
    by (simp add: test_formatting_def)
  have "Get (Query \<lparr>Query = [''target'' \<mapsto> [''foo'']]\<rparr>) ''target'' \<noteq> [] \<and>
      buildAddr (Get (Query \<lparr>Query = [''target'' \<mapsto> [''foo'']]\<rparr>) ''target'') =
        Inr ''http://foo:9123'' \<and>
      Fetch test_handler ''http://foo:9123'' = Inr test_data"
    by (simp add: Get_def buildAddr_foo test_handler_def)
  with th [of "\<lparr>Query = [''target'' \<mapsto> [''foo'']]\<rparr>"]
  show "\<exists>obs. scrapeDevice test_data (rev registered) = Inr obs \<and>
      written (ServeHTTP test_formatting test_handler (rev registered)
                 \<lparr>Query = [''target'' \<mapsto> [''foo'']]\<rparr> start) =
        Some \<lparr>StatusCode = 200, Body = encode test_handler obs\<rparr>"
    by blast
qed

text \<open>
  Claim C9. In every call of \<^verbatim>\<open>ServeHTTP\<close> the lock is not held when \<^verbatim>\<open>Fetch\<close> is called
  nor when it has returned, and no \<^verbatim>\<open>Lock\<close> comes before it; the lock is taken only after
  \<^verbatim>\<open>Fetch\<close> has returned data; the installation of the scrape function and the
  Prometheus handler, which gathers and writes the response body, run only with the
  lock held, and the lock is released after them. Whenever \<^verbatim>\<open>Fetch\<close> returns data, the
  call does take the lock, and what runs between \<^verbatim>\<open>Lock\<close> and \<^verbatim>\<open>Unlock\<close> is exactly the
  installation and the Prometheus handler, in this order; a response with status 200
  is written by the Prometheus handler only. The lock is released when the call ends.
\<close>

theorem ServeHTTP_lock_discipline:
  "(\<forall>pre a post. events (ServeHTTP fm h keys r start) = pre @ EvFetch a # post \<longrightarrow>
      \<not> held pre \<and> \<not> held (pre @ [EvFetch a]) \<and> EvLock \<notin> set pre) \<and>
   (\<forall>pre post. events (ServeHTTP fm h keys r start) = pre @ EvLock # post \<longrightarrow>
      (\<exists>a d. Fetch h a = Inr d \<and> pre = [EvFetch a] \<and>
         post = [EvOnConstScrape, EvMetricsServeHTTP, EvUnlock, EvCancel])) \<and>
   (\<forall>pre e post. events (ServeHTTP fm h keys r start) = pre @ e # post \<and>
        (e = EvOnConstScrape \<or> e = EvMetricsServeHTTP) \<longrightarrow>
      held pre \<and> EvUnlock \<in> set post) \<and>
   (\<forall>addr d. Get (Query r) ''target'' \<noteq> [] \<and> buildAddr (Get (Query r) ''target'') = Inr addr \<and>
        Fetch h addr = Inr d \<longrightarrow>
      events (ServeHTTP fm h keys r start) =
        [EvFetch addr, EvLock, EvOnConstScrape, EvMetricsServeHTTP, EvUnlock, EvCancel] \<and>
      installed (ServeHTTP fm h keys r start) = Some (scrapeDevice d)) \<and>
   (\<forall>b. written (ServeHTTP fm h keys r start) = Some \<lparr>StatusCode = 200, Body = b\<rparr> \<longrightarrow>
      EvMetricsServeHTTP \<in> set (events (ServeHTTP fm h keys r start))) \<and>
   \<not> held (events (ServeHTTP fm h keys r start)) \<and>
   \<not> locked (ServeHTTP fm h keys r start)"
proof -
  let ?t = "Get (Query r) ''target''"
  from ServeHTTP_cases [of r h]
  consider (missing) "?t = []"
    | (malformed) err where "?t \<noteq> []" "buildAddr ?t = Inl err"
    | (failed) addr err where "?t \<noteq> []" "buildAddr ?t = Inr addr" "Fetch h addr = Inl err"
    | (ok) addr d where "?t \<noteq> []" "buildAddr ?t = Inr addr" "Fetch h addr = Inr d"
    by blast
  then show ?thesis
  proof cases
    case missing
    have "\<not> locked (ServeHTTP fm h keys r start)"
      using missing
      by (simp add: ServeHTTP_def cancel_def http_Error_def emit_def start_def)
    with missing show ?thesis
      by (auto simp: ServeHTTP_missing held_def Cons_eq_append_conv)
  next
    case malformed
    have "\<not> locked (ServeHTTP fm h keys r start)"
      using malformed
      by (simp add: ServeHTTP_def cancel_def http_Error_def emit_def start_def)
    with malformed show ?thesis
      by (auto simp: ServeHTTP_malformed held_def Cons_eq_append_conv)
  next
    case failed
    have "\<not> locked (ServeHTTP fm h keys r start)"
      using failed
      by (simp add: ServeHTTP_def cancel_def http_Error_def emit_def start_def)
    with failed show ?thesis
      by (auto simp: ServeHTTP_fetch_failed held_def Cons_eq_append_conv)
  next
    case ok
    have "\<not> locked (ServeHTTP fm h keys r start)"
      using ok
      by (simp add: ServeHTTP_def cancel_def emit_def start_def mu_Lock_def mu_Unlock_def
          OnConstScrape_def metrics_ServeHTTP_def Let_def split: sum.split)
    with ok show ?thesis
      by (auto simp: ServeHTTP_ok_events held_def Cons_eq_append_conv)
  qed
qed

theorem ServeHTTP_lock_discipline_witness:
  "events (ServeHTTP test_formatting test_handler (rev registered)
       \<lparr>Query = [''target'' \<mapsto> [''foo'']]\<rparr> start) =
     [EvFetch ''http://foo:9123'', EvLock, EvOnConstScrape, EvMetricsServeHTTP, EvUnlock,
      EvCancel] \<and>
   installed (ServeHTTP test_formatting test_handler (rev registered)
       \<lparr>Query = [''target'' \<mapsto> [''foo'']]\<rparr> start) = Some (scrapeDevice test_data) \<and>
   \<not> held [] \<and> \<not> held [EvFetch ''http://foo:9123''] \<and>
   held [EvFetch ''http://foo:9123'', EvLock] \<and>
   held [EvFetch ''http://foo:9123'', EvLock, EvOnConstScrape] \<and>
   \<not> held (events (ServeHTTP test_formatting test_handler (rev registered)
       \<lparr>Query = [''target'' \<mapsto> [''foo'']]\<rparr> start))"
proof -
  let ?r = "\<lparr>Query = [''target'' \<mapsto> [''foo'']]\<rparr>"
  let ?W = "ServeHTTP test_formatting test_handler (rev registered) ?r start"
  note th = ServeHTTP_lock_discipline [of test_formatting test_handler "rev registered" ?r]
  have t: "Get (Query ?r) ''target'' \<noteq> [] \<and>
    buildAddr (Get (Query ?r) ''target'') = Inr ''http://foo:9123'' \<and>
    Fetch test_handler ''http://foo:9123'' = Inr test_data"
    by (simp add: Get_def buildAddr_foo test_handler_def)
  with th have ev: "events ?W =
      [EvFetch ''http://foo:9123'', EvLock, EvOnConstScrape, EvMetricsServeHTTP, EvUnlock,
       EvCancel]"
    and inst: "installed ?W = Some (scrapeDevice test_data)"
    by blast+
  from ev have e0: "events ?W = [] @ EvFetch ''http://foo:9123'' #
      [EvLock, EvOnConstScrape, EvMetricsServeHTTP, EvUnlock, EvCancel]"
    and e2: "events ?W = [EvFetch ''http://foo:9123'', EvLock] @ EvOnConstScrape #
      [EvMetricsServeHTTP, EvUnlock, EvCancel] \<and>
      (EvOnConstScrape = EvOnConstScrape \<or> EvOnConstScrape = EvMetricsServeHTTP)"
    and e3: "events ?W = [EvFetch ''http://foo:9123'', EvLock, EvOnConstScrape] @
      EvMetricsServeHTTP # [EvUnlock, EvCancel] \<and>
      (EvMetricsServeHTTP = EvOnConstScrape \<or> EvMetricsServeHTTP = EvMetricsServeHTTP)"
    by simp_all
  from th e0 have "\<not> held []" and "\<not> held ([] @ [EvFetch ''http://foo:9123''])"
    by blast+
  moreover from th e2 have "held [EvFetch ''http://foo:9123'', EvLock]"
    by blast
  moreover from th e3 have "held [EvFetch ''http://foo:9123'', EvLock, EvOnConstScrape]"
    by blast
  moreover from th have "\<not> held (events ?W)"
    by blast
  ultimately show ?thesis using ev inst by simp
qed

section \<open>Properties of two requests served at once\<close>

lemma emitted_serial:
  "ob \<in> set (emitted d name) \<Longrightarrow> last (obs_labels ob) = SerialNumber (Device d)"
  by (auto simp: emitted_def split: if_splits)

lemma serialized_start: "serialized h keys d conc_start"
  by (simp add: serialized_def conc_start_def in_section_def start_def)

lemma conc_step_done: "4 \<le> pc c r \<Longrightarrow> conc_step h keys d c r = c"
  by (simp add: conc_step_def)

lemma conc_step_blocked: "pc c r = 0 \<Longrightarrow> mu c \<Longrightarrow> conc_step h keys d c r = c"
  by (simp add: conc_step_def)

lemma conc_step_pc:
  "pc c r < 4 \<Longrightarrow> \<not> (pc c r = 0 \<and> mu c) \<Longrightarrow>
   pc (conc_step h keys d c r) = (pc c)(r := Suc (pc c r))"
  by (auto simp: conc_step_def Let_def)

lemma conc_step_other:
  "call (conc_step h keys d c r) (\<not> r) = call c (\<not> r)"
  by (simp add: conc_step_def Let_def)

lemma conc_step_lock:
  assumes "pc c r = 0" and "\<not> mu c"
  shows "mu (conc_step h keys d c r)"
    and "mm (conc_step h keys d c r) = mm c"
    and "written (call (conc_step h keys d c r) r) = written (call c r)"
    and "panicked (call (conc_step h keys d c r) r) = panicked (call c r)"
  using assms
  by (simp_all add: conc_step_def Let_def section_step_def mu_Lock_def emit_def)

lemma conc_step_install:
  assumes "pc c r = 1"
  shows "mu (conc_step h keys d c r) = mu c"
    and "mm (conc_step h keys d c r) = Some (scrapeDevice (d r))"
    and "written (call (conc_step h keys d c r) r) = written (call c r)"
    and "panicked (call (conc_step h keys d c r) r) = panicked (call c r)"
  using assms
  by (simp_all add: conc_step_def Let_def section_step_def OnConstScrape_def emit_def)

lemma conc_step_render:
  assumes "pc c r = 2" and "mm c = Some (scrapeDevice (d r))"
    and "set (keys r) \<subseteq> set registered"
  shows "mu (conc_step h keys d c r) = mu c"
    and "mm (conc_step h keys d c r) = mm c"
    and "written (call (conc_step h keys d c r) r) =
       Some \<lparr>StatusCode = StatusOK, Body = encode h (concat (map (emitted (d r)) (keys r)))\<rparr>"
    and "panicked (call (conc_step h keys d c r) r) = panicked (call c r)"
  using assms(1,2) scrapeDevice_registered [OF assms(3), of "d r"]
  by (simp_all add: conc_step_def Let_def section_step_def metrics_ServeHTTP_def emit_def)

lemma conc_step_unlock:
  assumes "pc c r = 3"
  shows "\<not> mu (conc_step h keys d c r)"
    and "mm (conc_step h keys d c r) = mm c"
    and "written (call (conc_step h keys d c r) r) = written (call c r)"
    and "panicked (call (conc_step h keys d c r) r) = panicked (call c r)"
  using assms
  by (simp_all add: conc_step_def Let_def section_step_def mu_Unlock_def emit_def)

lemma serialized_step:
  assumes keys: "\<forall>r. set (keys r) \<subseteq> set registered"
    and inv: "serialized h keys d c"
  shows "serialized h keys d (conc_step h keys d c r)"
proof -
  let ?c = "conc_step h keys d c r"
  from inv have le: "pc c r \<le> 4" by (simp add: serialized_def)
  then consider (blocked) "pc c r = 0" "mu c" | (lock) "pc c r = 0" "\<not> mu c"
    | (install) "pc c r = 1" | (render) "pc c r = 2" | (unlock) "pc c r = 3"
    | (finished) "pc c r = 4"
    by linarith
  then show ?thesis
  proof cases
    case blocked
    then show ?thesis using inv by (simp add: conc_step_blocked)
  next
    case finished
    then show ?thesis using inv by (simp add: conc_step_done)
  next
    case lock
    have pc: "pc ?c = (pc c)(r := 1)" using lock by (simp add: conc_step_pc)
    from inv lock pc conc_step_other [of h keys d c r] conc_step_lock [OF lock, of h keys d]
    show ?thesis
      unfolding serialized_def in_section_def all_bool_eq
      by (cases r) auto
  next
    case install
    have pc: "pc ?c = (pc c)(r := 2)" using install by (simp add: conc_step_pc eval_nat_numeral)
    from inv install pc conc_step_other [of h keys d c r] conc_step_install [OF install, of h keys d]
    show ?thesis
      unfolding serialized_def in_section_def all_bool_eq
      by (cases r) auto
  next
    case render
    have pc: "pc ?c = (pc c)(r := 3)" using render by (simp add: conc_step_pc eval_nat_numeral)
    from inv render have m: "mm c = Some (scrapeDevice (d r))"
      by (simp add: serialized_def)
    from keys have k: "set (keys r) \<subseteq> set registered" by simp
    from inv render pc conc_step_other [of h keys d c r] conc_step_render [of c r d keys h, OF render m k]
    show ?thesis
      unfolding serialized_def in_section_def all_bool_eq
      by (cases r) auto
  next
    case unlock
    have pc: "pc ?c = (pc c)(r := 4)" using unlock by (simp add: conc_step_pc eval_nat_numeral)
    from inv unlock pc conc_step_other [of h keys d c r] conc_step_unlock [OF unlock, of h keys d]
    show ?thesis
      unfolding serialized_def in_section_def all_bool_eq
      by (cases r) auto
  qed
qed

lemma serialized_foldl:
  assumes "\<forall>r. set (keys r) \<subseteq> set registered" and "serialized h keys d c"
  shows "serialized h keys d (foldl (conc_step h keys d) c sched)"
  using assms(2)
  by (induction sched arbitrary: c) (simp_all add: serialized_step [OF assms(1)])

lemma serialized_interleave:
  "\<forall>r. set (keys r) \<subseteq> set registered \<Longrightarrow> serialized h keys d (interleave h keys d sched)"
  unfolding interleave_def by (rule serialized_foldl [OF _ serialized_start])

text \<open>A call moves whenever the other one is not in the section.\<close>

lemma conc_step_moves:
  assumes "serialized h keys d c" and "\<not> in_section c (\<not> r)" and "pc c r < 4"
  shows "pc (conc_step h keys d c r) = (pc c)(r := Suc (pc c r))"
proof -
  have "\<not> (pc c r = 0 \<and> mu c)"
    using assms(1,2) unfolding serialized_def in_section_def all_bool_eq
    by (cases r) auto
  with assms(3) show ?thesis by (rule conc_step_pc)
qed

lemma run_alone:
  assumes keys: "\<forall>r. set (keys r) \<subseteq> set registered"
  shows "serialized h keys d c \<Longrightarrow> \<not> in_section c (\<not> r) \<Longrightarrow>
     pc (foldl (conc_step h keys d) c (replicate n r)) r = min 4 (pc c r + n) \<and>
     pc (foldl (conc_step h keys d) c (replicate n r)) (\<not> r) = pc c (\<not> r)"
proof (induction n arbitrary: c)
  case 0
  then show ?case by (simp add: serialized_def)
next
  case (Suc n)
  let ?c = "conc_step h keys d c r"
  have inv: "serialized h keys d ?c"
    using keys Suc.prems(1) by (rule serialized_step)
  show ?case
  proof (cases "pc c r < 4")
    case True
    from conc_step_moves [OF Suc.prems True]
    have pc: "pc ?c = (pc c)(r := Suc (pc c r))" .
    then have "\<not> in_section ?c (\<not> r)"
      using Suc.prems(2) by (simp add: in_section_def)
    from Suc.IH [OF inv this] show ?thesis
      by (simp add: pc)
  next
    case False
    then have same: "?c = c" by (simp add: conc_step_done)
    from False Suc.prems(1) have "pc c r = 4"
      unfolding serialized_def by (metis le_neq_implies_less)
    with Suc.IH [OF Suc.prems] same show ?thesis
      by simp
  qed
qed

lemma both_finish:
  assumes keys: "\<forall>r. set (keys r) \<subseteq> set registered"
  shows "\<exists>r0. \<forall>r. pc (interleave h keys d (sched @ replicate 4 r0 @ replicate 4 (\<not> r0))) r = 4"
proof -
  let ?c = "interleave h keys d sched"
  have inv: "serialized h keys d ?c"
    using keys by (rule serialized_interleave)
  then have "\<not> (in_section ?c True \<and> in_section ?c False)"
    by (simp add: serialized_def)
  then obtain r0 where free: "\<not> in_section ?c (\<not> r0)"
    by (metis (full_types))
  let ?c1 = "foldl (conc_step h keys d) ?c (replicate 4 r0)"
  let ?c2 = "foldl (conc_step h keys d) ?c1 (replicate 4 (\<not> r0))"
  from run_alone [OF keys inv free, of 4]
  have one: "pc ?c1 r0 = 4" "pc ?c1 (\<not> r0) = pc ?c (\<not> r0)"
    by simp_all
  have inv1: "serialized h keys d ?c1"
    using keys inv by (rule serialized_foldl)
  from one have free1: "\<not> in_section ?c1 (\<not> (\<not> r0))"
    by (simp add: in_section_def)
  from run_alone [OF keys inv1 free1, of 4] one
  have two: "pc ?c2 (\<not> r0) = 4" "pc ?c2 r0 = 4"
    by simp_all
  have "interleave h keys d (sched @ replicate 4 r0 @ replicate 4 (\<not> r0)) = ?c2"
    by (simp add: interleave_def)
  with two have "\<forall>r. pc (interleave h keys d (sched @ replicate 4 r0 @ replicate 4 (\<not> r0))) r = 4"
    by (cases r0) (simp_all add: all_bool_eq)
  then show ?thesis ..
qed

text \<open>
  Claim C8. Two calls of \<^verbatim>\<open>ServeHTTP\<close> that have fetched the data of two devices run
  their last four steps (lock, install the scrape function, render, unlock) in any
  interleaving. At every moment of every schedule, at most one of them is between its
  \<^verbatim>\<open>Lock\<close> and its \<^verbatim>\<open>Unlock\<close>; while a call is between its installation and its
  \<^verbatim>\<open>Unlock\<close>, the scrape function installed is its own, so that the write of the other
  call never comes between its write and its read; a response written is the encoding,
  with status 200, of the observations of the call's own device, all of which carry
  the serial number of that device as their serial label; and no scrape panics. The
  two calls do not block each other for ever: from every moment on, letting one call
  and then the other run ends both, each with its response written. The gauges
  gathered by each call are the four registered ones, in any order.
\<close>

theorem concurrent_requests_serialized:
  assumes "\<forall>r. set (keys r) = set registered"
  shows
  "\<not> (in_section (interleave h keys d sched) True \<and> in_section (interleave h keys d sched) False) \<and>
   (\<forall>r. pc (interleave h keys d sched) r = 2 \<or> pc (interleave h keys d sched) r = 3 \<longrightarrow>
      mm (interleave h keys d sched) = Some (scrapeDevice (d r))) \<and>
   (\<forall>r resp. written (call (interleave h keys d sched) r) = Some resp \<longrightarrow>
      (\<exists>obs. scrapeDevice (d r) (keys r) = Inr obs \<and>
         resp = \<lparr>StatusCode = 200, Body = encode h obs\<rparr> \<and>
         (\<forall>ob \<in> set obs. last (obs_labels ob) = SerialNumber (Device (d r))))) \<and>
   (\<forall>r. panicked (call (interleave h keys d sched) r) = None) \<and>
   (\<exists>r0. \<forall>r.
      pc (interleave h keys d (sched @ replicate 4 r0 @ replicate 4 (\<not> r0))) r = 4 \<and>
      written (call (interleave h keys d (sched @ replicate 4 r0 @ replicate 4 (\<not> r0))) r) \<noteq>
        None)"
proof -
  from assms have keys: "\<forall>r. set (keys r) \<subseteq> set registered" by simp
  have inv: "serialized h keys d (interleave h keys d s)" for s
    using keys by (rule serialized_interleave)
  let ?c = "interleave h keys d sched"
  have a: "\<not> (in_section ?c True \<and> in_section ?c False)"
    using inv [of sched] by (simp add: serialized_def)
  have b: "\<forall>r. pc ?c r = 2 \<or> pc ?c r = 3 \<longrightarrow> mm ?c = Some (scrapeDevice (d r))"
    using inv [of sched] by (simp add: serialized_def)
  have c: "\<forall>r resp. written (call ?c r) = Some resp \<longrightarrow>
      (\<exists>obs. scrapeDevice (d r) (keys r) = Inr obs \<and>
         resp = \<lparr>StatusCode = 200, Body = encode h obs\<rparr> \<and>
         (\<forall>ob \<in> set obs. last (obs_labels ob) = SerialNumber (Device (d r))))"
  proof (intro allI impI)
    fix r resp
    assume w: "written (call ?c r) = Some resp"
    from keys have k: "set (keys r) \<subseteq> set registered" by simp
    have "\<not> pc ?c r \<le> 2"
      using inv [of sched] w by (auto simp: serialized_def)
    then have "3 \<le> pc ?c r" by simp
    with inv [of sched] w
    have "resp = \<lparr>StatusCode = 200, Body = encode h (concat (map (emitted (d r)) (keys r)))\<rparr>"
      by (auto simp: serialized_def StatusOK_def)
    moreover have "\<forall>ob \<in> set (concat (map (emitted (d r)) (keys r))).
        last (obs_labels ob) = SerialNumber (Device (d r))"
      by (auto simp: emitted_serial)
    ultimately show "\<exists>obs. scrapeDevice (d r) (keys r) = Inr obs \<and>
         resp = \<lparr>StatusCode = 200, Body = encode h obs\<rparr> \<and>
         (\<forall>ob \<in> set obs. last (obs_labels ob) = SerialNumber (Device (d r)))"
      using scrapeDevice_registered [OF k, of "d r"] by blast
  qed
  have e: "\<forall>r. panicked (call ?c r) = None"
    using inv [of sched] by (simp add: serialized_def)
  from both_finish [OF keys, of h d sched] obtain r0 where
    fin: "\<forall>r. pc (interleave h keys d (sched @ replicate 4 r0 @ replicate 4 (\<not> r0))) r = 4"
    by blast
  have "\<forall>r. pc (interleave h keys d (sched @ replicate 4 r0 @ replicate 4 (\<not> r0))) r = 4 \<and>
      written (call (interleave h keys d (sched @ replicate 4 r0 @ replicate 4 (\<not> r0))) r) \<noteq>
        None"
    using fin inv [of "sched @ replicate 4 r0 @ replicate 4 (\<not> r0)"]
    by (auto simp: serialized_def)
  then have f: "\<exists>r0. \<forall>r.
      pc (interleave h keys d (sched @ replicate 4 r0 @ replicate 4 (\<not> r0))) r = 4 \<and>
      written (call (interleave h keys d (sched @ replicate 4 r0 @ replicate 4 (\<not> r0))) r) \<noteq>
        None" ..
  from a b c e f show ?thesis by (intro conjI)
qed

lemma other_data_scrape:
  "scrapeDevice other_data (rev registered) = Inr
     [Observation klLightTemperatureKelvin 2900 [''light0'', ''2222''],
      Observation klLightBrightnessPercent 35 [''light0'', ''2222''],
      Observation klLightOn 1 [''light0'', ''2222''],
      Observation klInfo 1 [''1.0.3'', ''other'', ''2222'']]"
  by (simp add: scrapeDevice_def other_data_def registered_def itoa_small digit_def
      boolFloat_def float64_def bits_0 bits_pos)

text \<open>
  An interleaving in which the second call tries to take the lock while the first one
  holds it: both calls end, each with a response written.
\<close>

lemma interleave_example:
  "written (call (interleave test_handler (\<lambda>r. if r then registered else rev registered)
        (\<lambda>r. if r then test_data else other_data)
        [True, False, True, False, True, False, True, False, False, False, False]) True) \<noteq> None \<and>
   written (call (interleave test_handler (\<lambda>r. if r then registered else rev registered)
        (\<lambda>r. if r then test_data else other_data)
        [True, False, True, False, True, False, True, False, False, False, False]) False) \<noteq> None"
  by (simp add: interleave_def conc_step_def conc_start_def start_def section_step_def Let_def
      mu_Lock_def mu_Unlock_def OnConstScrape_def metrics_ServeHTTP_def emit_def
      test_data_scrape other_data_scrape)

theorem concurrent_requests_serialized_witness:
  "\<not> (in_section (interleave test_handler (\<lambda>r. if r then registered else rev registered)
          (\<lambda>r. if r then test_data else other_data)
          [True, False, True, False, True, False, True, False, False, False, False]) True \<and>
      in_section (interleave test_handler (\<lambda>r. if r then registered else rev registered)
          (\<lambda>r. if r then test_data else other_data)
          [True, False, True, False, True, False, True, False, False, False, False]) False) \<and>
   written (call (interleave test_handler (\<lambda>r. if r then registered else rev registered)
        (\<lambda>r. if r then test_data else other_data)
        [True, False, True, False, True, False, True, False, False, False, False]) True) =
     Some \<lparr>StatusCode = 200,
           Body = ''keylight_info 1111; keylight_light_on 1111; keylight_light_on 1111; '' @
                  ''keylight_light_brightness_percent 1111; '' @
                  ''keylight_light_brightness_percent 1111; '' @
                  ''keylight_light_temperature_kelvin 1111; '' @
                  ''keylight_light_temperature_kelvin 1111; ''\<rparr> \<and>
   written (call (interleave test_handler (\<lambda>r. if r then registered else rev registered)
        (\<lambda>r. if r then test_data else other_data)
        [True, False, True, False, True, False, True, False, False, False, False]) False) =
     Some \<lparr>StatusCode = 200,
           Body = ''keylight_light_temperature_kelvin 2222; '' @
                  ''keylight_light_brightness_percent 2222; '' @
                  ''keylight_light_on 2222; keylight_info 2222; ''\<rparr>"
proof -
  let ?keys = "\<lambda>r. if r then registered else rev registered"
  let ?d = "\<lambda>r. if r then test_data else other_data"
  let ?s = "[True, False, True, False, True, False, True, False, False, False, False]"
  let ?c = "interleave test_handler ?keys ?d ?s"
  have k: "\<forall>r. set (?keys r) = set registered" by simp
  note th = concurrent_requests_serialized [OF k, of test_handler ?d ?s]
  from th have excl: "\<not> (in_section ?c True \<and> in_section ?c False)"
    by blast
  from th have each: "written (call ?c r) = Some resp \<Longrightarrow>
      \<exists>obs. scrapeDevice (?d r) (?keys r) = Inr obs \<and>
        resp = \<lparr>StatusCode = 200, Body = encode test_handler obs\<rparr>" for r resp
    by blast
  from interleave_example obtain respT respF where
    w: "written (call ?c True) = Some respT" "written (call ?c False) = Some respF"
    by auto
  from each [OF w(1)] have "respT = \<lparr>StatusCode = 200, Body =
      ''keylight_info 1111; keylight_light_on 1111; keylight_light_on 1111; '' @
      ''keylight_light_brightness_percent 1111; '' @
      ''keylight_light_brightness_percent 1111; '' @
      ''keylight_light_temperature_kelvin 1111; '' @
      ''keylight_light_temperature_kelvin 1111; ''\<rparr>"
    by (simp add: test_data_scrape test_handler_def klInfo_def klLightOn_def
        klLightBrightnessPercent_def klLightTemperatureKelvin_def)
  moreover from each [OF w(2)] have "respF = \<lparr>StatusCode = 200, Body =
      ''keylight_light_temperature_kelvin 2222; '' @
      ''keylight_light_brightness_percent 2222; '' @
      ''keylight_light_on 2222; keylight_info 2222; ''\<rparr>"
    by (simp add: other_data_scrape test_handler_def klInfo_def klLightOn_def
        klLightBrightnessPercent_def klLightTemperatureKelvin_def)
  ultimately show ?thesis using excl w by simp
qed

end
